theory Spec2Isabelle
  imports Complex_Main "HOL-Library.AList"
begin

section \<open>Task dispatch coordinator and local worker\<close>

text \<open>
  A shallow embedding of \<^verbatim>\<open>src/api/main.py\<close> (the dispatch API: worker registry,
  even distribution, fan-out and aggregation) and \<^verbatim>\<open>src/worker/worker.py\<close> (the
  worker's execute endpoint).

  Conventions of the embedding.
  \<^item> A Python \<^verbatim>\<open>str\<close> is a \<open>string\<close>; each \<open>char\<close> stands for one code point below 256.
  \<^item> A Python \<^verbatim>\<open>int\<close> is an \<open>int\<close>; \<^verbatim>\<open>//\<close> and \<^verbatim>\<open>%\<close> are \<open>div\<close> and \<open>mod\<close>
    (both round towards minus infinity), with the division by zero written out.
  \<^item> A clock reading (\<^verbatim>\<open>time.time()\<close>) is a \<open>rat\<close>; every finite double is one, and
    a product of doubles is rounded as the machine rounds it.
  \<^item> A raised exception is the \<open>Inl\<close> branch of a sum.
  \<^item> The module-level dictionary \<^verbatim>\<open>workers\<close> is an association list in insertion
    order: assigning to a present key replaces the value in place, assigning to a fresh
    key appends, as a Python \<^verbatim>\<open>dict\<close> does.
\<close>

subsection \<open>Errors\<close>

text \<open>
  The \<open>detail\<close> of an \<^verbatim>\<open>HTTPException\<close> is a fixed message; it is named here by
  the place that raises it.
\<close>

datatype detail = MissingUrl | BadScheme | NoWorkers | EmptyName | NegativeCount

datatype pyerror =
    ZeroDivisionError
  | ValueError
  | TypeError
  | OverflowError
  | OSError
  | RequestValidationError
  | HTTPException int detail

subsection \<open>The worker record\<close>

record Worker =
  id_w :: string
  label :: string
  url :: string
  registered_at :: rat
  last_seen_at :: rat
  source :: string

subsection \<open>Even distribution\<close>

text \<open>
  The loop of \<^verbatim>\<open>_distribute_evenly\<close>: \<^verbatim>\<open>for i, w in enumerate(ws)\<close>, appending
  \<^verbatim>\<open>(w, base + (1 if i < rem else 0))\<close>. The index \<open>i\<close> is the position reached.
\<close>

fun distribute_loop :: "int \<Rightarrow> int \<Rightarrow> nat \<Rightarrow> 'w list \<Rightarrow> ('w \<times> int) list" where
  "distribute_loop base rem i [] = []"
| "distribute_loop base rem i (w # ws) =
     (w, base + (if int i < rem then 1 else 0)) # distribute_loop base rem (Suc i) ws"

definition distribute_evenly :: "int \<Rightarrow> 'w list \<Rightarrow> pyerror + ('w \<times> int) list" where
  "distribute_evenly tot ws =
     (let n = int (length ws) in
      if n = 0 then Inl ZeroDivisionError
      else
        let base = tot div n;
            rem = tot mod n
        in Inr (distribute_loop base rem 0 ws))"

subsection \<open>Python strings\<close>

text \<open>
  The characters \<^verbatim>\<open>str.strip()\<close> removes, among the code points below 256: tab to
  carriage return, the four separators 0x1C to 0x1F, the space, NEL and the no-break space.
\<close>

definition isspace :: "char \<Rightarrow> bool" where
  "isspace c \<longleftrightarrow> c \<in> set [CHR 0x09, CHR 0x0A, CHR 0x0B, CHR 0x0C, CHR 0x0D,
                         CHR 0x1C, CHR 0x1D, CHR 0x1E, CHR 0x1F, CHR 0x20, CHR 0x85, CHR 0xA0]"

definition strip :: "string \<Rightarrow> string" where
  "strip s = rev (dropWhile isspace (rev (dropWhile isspace s)))"

definition startswith :: "string \<Rightarrow> string \<Rightarrow> bool" where
  "startswith s p \<longleftrightarrow> take (length p) s = p"

definition endswith :: "string \<Rightarrow> string \<Rightarrow> bool" where
  "endswith s p \<longleftrightarrow> length p \<le> length s \<and> drop (length s - length p) s = p"

text \<open>Decimal rendering of an integer, as \<^verbatim>\<open>str(i)\<close> and an f-string do.\<close>

definition digit :: "nat \<Rightarrow> char" where
  "digit d = ''0123456789'' ! d"

fun str_nat :: "nat \<Rightarrow> string" where
  "str_nat n = (if n < 10 then [digit n] else str_nat (n div 10) @ [digit (n mod 10)])"

definition str_int :: "int \<Rightarrow> string" where
  "str_int i = (if i < 0 then CHR ''-'' # str_nat (nat (- i)) else str_nat (nat i))"

text \<open>\<^verbatim>\<open>int(x)\<close> on a finite float truncates towards zero.\<close>

definition trunc :: "rat \<Rightarrow> int" where
  "trunc q = (if 0 \<le> q then \<lfloor>q\<rfloor> else \<lceil>q\<rceil>)"

text \<open>
  Arithmetic on doubles. A finite double is the rational it denotes. A product is the
  exact product rounded to the nearest double, ties to the even significand: with
  \<open>2 ^ e \<le> |q| < 2 ^ (e + 1)\<close> the doubles around \<open>q\<close> are the multiples of
  \<open>2 ^ (e - 52)\<close>, and of \<open>2 ^ - 1074\<close> among the subnormal ones. Overflow to infinity
  is not modelled: the only product taken is a clock reading times 1000, and a reading
  of \<^verbatim>\<open>time.time()\<close> is near \<open>2 ^ 31\<close>.
\<close>

fun bit_len :: "nat \<Rightarrow> nat" where
  "bit_len n = (if n = 0 then 0 else Suc (bit_len (n div 2)))"

definition floor_log2 :: "rat \<Rightarrow> int" where
  "floor_log2 q =
     (if 1 \<le> q then int (bit_len (nat \<lfloor>q\<rfloor>)) - 1
      else - int (bit_len (nat (\<lceil>1 / q\<rceil> - 1))))"

definition pow2 :: "int \<Rightarrow> rat" where
  "pow2 e = (if 0 \<le> e then 2 ^ nat e else 1 / 2 ^ nat (- e))"

definition round_half_even :: "rat \<Rightarrow> int" where
  "round_half_even x =
     (let f = \<lfloor>x\<rfloor>;
          r = x - of_int f
      in if r < 1 / 2 then f
         else if 1 / 2 < r then f + 1
         else if even f then f else f + 1)"

definition round_double :: "rat \<Rightarrow> rat" where
  "round_double q =
     (if q = 0 then 0
      else
        let u = pow2 (max (floor_log2 \<bar>q\<bar> - 52) (- 1074))
        in of_int (round_half_even (q / u)) * u)"

definition fmul :: "rat \<Rightarrow> rat \<Rightarrow> rat" where
  "fmul a b = round_double (a * b)"

subsection \<open>Python values decoded from JSON\<close>

datatype pyfloat = FFinite rat | FNaN | FInf bool

datatype pyval =
    PNone
  | PBool bool
  | PInt int
  | PFloat pyfloat
  | PStr string
  | PList "pyval list"
  | PDict "(string \<times> pyval) list"

text \<open>\<^verbatim>\<open>d.get(k)\<close>: the value stored under \<open>k\<close>, or \<^verbatim>\<open>None\<close>.\<close>

definition dict_get :: "(string \<times> pyval) list \<Rightarrow> string \<Rightarrow> pyval" where
  "dict_get kv k = (case map_of kv k of None \<Rightarrow> PNone | Some v \<Rightarrow> v)"

fun truthy :: "pyval \<Rightarrow> bool" where
  "truthy PNone = False"
| "truthy (PBool b) = b"
| "truthy (PInt i) = (i \<noteq> 0)"
| "truthy (PFloat (FFinite q)) = (q \<noteq> 0)"
| "truthy (PFloat FNaN) = True"
| "truthy (PFloat (FInf b)) = True"
| "truthy (PStr s) = (s \<noteq> [])"
| "truthy (PList xs) = (xs \<noteq> [])"
| "truthy (PDict kv) = (kv \<noteq> [])"

text \<open>\<^verbatim>\<open>a or b\<close> on values.\<close>

definition py_or :: "pyval \<Rightarrow> pyval \<Rightarrow> pyval" where
  "py_or a b = (if truthy a then a else b)"

text \<open>
  \<^verbatim>\<open>int(v)\<close>. The built-in's parser of strings is not code of this repository and is
  a parameter: \<open>parse s = None\<close> when \<^verbatim>\<open>int(s)\<close> raises \<^verbatim>\<open>ValueError\<close>.
\<close>

fun py_int :: "(string \<Rightarrow> int option) \<Rightarrow> pyval \<Rightarrow> pyerror + int" where
  "py_int parse PNone = Inl TypeError"
| "py_int parse (PBool b) = Inr (if b then 1 else 0)"
| "py_int parse (PInt i) = Inr i"
| "py_int parse (PFloat (FFinite q)) = Inr (trunc q)"
| "py_int parse (PFloat FNaN) = Inl ValueError"
| "py_int parse (PFloat (FInf b)) = Inl OverflowError"
| "py_int parse (PStr s) = (case parse s of None \<Rightarrow> Inl ValueError | Some i \<Rightarrow> Inr i)"
| "py_int parse (PList xs) = Inl TypeError"
| "py_int parse (PDict kv) = Inl TypeError"

subsection \<open>The registry\<close>

type_synonym registry = "(string \<times> Worker) list"

record state =
  workers :: registry
  task_seq :: int

definition dict_set :: "string \<Rightarrow> Worker \<Rightarrow> registry \<Rightarrow> registry" where
  "dict_set k w reg = AList.update k w reg"

function normalize_loop :: "string \<Rightarrow> string" where
  "normalize_loop u = (if endswith u ''/'' then normalize_loop (butlast u) else u)"
  by pat_completeness auto
termination
  by (relation "measure length") (auto simp: endswith_def)

definition normalize_url :: "string \<Rightarrow> string" where
  "normalize_url u = normalize_loop (strip u)"

text \<open>
  \<^verbatim>\<open>_load_workers_env_once\<close>, on the triples that \<^verbatim>\<open>_parse_workers_from_env\<close>
  returns (the parsing of the environment variable is not modelled).
\<close>

fun load_workers_env_once :: "rat \<Rightarrow> (string \<times> string \<times> string) list \<Rightarrow> registry \<Rightarrow> registry" where
  "load_workers_env_once now [] reg = reg"
| "load_workers_env_once now ((wid, lbl, u) # es) reg =
     load_workers_env_once now es
       (dict_set wid \<lparr>id_w = wid, label = lbl, url = u, registered_at = now,
                      last_seen_at = now, source = ''env''\<rparr> reg)"

text \<open>\<^verbatim>\<open>sorted\<close> is stable, and so is \<open>sort_key\<close>.\<close>

definition get_workers_list :: "registry \<Rightarrow> Worker list" where
  "get_workers_list reg = sort_key registered_at (map snd reg)"

subsection \<open>Registration\<close>

record RegisterWorkerIn =
  url_in :: string
  label_in :: string
  id_in :: "string option"

text \<open>
  Line 160: the id of the request, stripped, or \<^verbatim>\<open>f"reg-{int(_now()*1000)}"\<close> when
  that is empty; \<open>t\<close> is the clock reading of that line.
\<close>

definition register_id :: "rat \<Rightarrow> RegisterWorkerIn \<Rightarrow> string" where
  "register_id t body =
     (let given = strip (case id_in body of None \<Rightarrow> [] | Some i \<Rightarrow> i)
      in if given \<noteq> [] then given else ''reg-'' @ str_int (trunc (fmul t 1000)))"

definition register_label :: "RegisterWorkerIn \<Rightarrow> string" where
  "register_label body =
     (let l = strip (if label_in body \<noteq> [] then label_in body else ''worker'')
      in if l \<noteq> [] then l else ''worker'')"

text \<open>
  The handler takes the two clock readings it makes (\<open>t\<close> on line 160, \<open>now\<close> on line
  162) and returns the registered worker with the new state, or the error with the
  state it leaves.
\<close>

definition api_register_worker ::
  "rat \<Rightarrow> rat \<Rightarrow> RegisterWorkerIn \<Rightarrow> state \<Rightarrow> (pyerror + Worker) \<times> state" where
  "api_register_worker t now body s =
     (let u = normalize_url (url_in body) in
      if u = [] then (Inl (HTTPException 400 MissingUrl), s)
      else if \<not> (startswith u ''http://'' \<or> startswith u ''https://'')
        then (Inl (HTTPException 400 BadScheme), s)
      else
        let wid = register_id t body;
            lbl = register_label body;
            existing = map_of (workers s) wid;
            w = \<lparr>id_w = wid, label = lbl, url = u,
                 registered_at = (case existing of Some e \<Rightarrow> registered_at e | None \<Rightarrow> now),
                 last_seen_at = now, source = ''register''\<rparr>
        in (Inr w, s\<lparr>workers := dict_set wid w (workers s)\<rparr>))"

subsection \<open>One remote call\<close>

text \<open>
  What \<^verbatim>\<open>client.post\<close> did: it returned a response with a status code and a body
  that \<^verbatim>\<open>r.json()\<close> decodes (\<open>None\<close> when decoding raises), or it raised, with the
  message that line 211 reads from the exception.
\<close>

datatype outcome = Responded int "pyval option" | Raised string

record DispatchResult =
  workerId :: string
  label_r :: string
  url_r :: string
  ok :: bool
  status :: int
  elapsedMs :: int
  result :: pyval
  error :: pyval

definition call_worker_execute :: "outcome \<Rightarrow> int \<Rightarrow> Worker \<Rightarrow> DispatchResult" where
  "call_worker_execute out elapsed worker =
     (case out of
        Responded status_code body \<Rightarrow>
          let data = (case body of None \<Rightarrow> PNone | Some d \<Rightarrow> d);
              is_ok = (200 \<le> status_code \<and> status_code < 300);
              err = (if is_ok then PNone
                     else (case data of
                             PDict kv \<Rightarrow> dict_get kv ''error''
                           | _ \<Rightarrow> PStr (''HTTP '' @ str_int status_code)))
          in \<lparr>workerId = id_w worker, label_r = label worker, url_r = url worker,
              ok = is_ok, status = status_code, elapsedMs = elapsed,
              result = data, error = err\<rparr>
      | Raised msg \<Rightarrow>
          \<lparr>workerId = id_w worker, label_r = label worker, url_r = url worker,
           ok = False, status = 0, elapsedMs = elapsed,
           result = PNone, error = PStr msg\<rparr>)"

subsection \<open>Task creation\<close>

record CreateTaskIn =
  name :: string
  count :: int

definition CreateTaskIn_valid :: "CreateTaskIn \<Rightarrow> bool" where
  "CreateTaskIn_valid body \<longleftrightarrow> 1 \<le> length (name body) \<and> 0 < count body"

record TaskReport =
  ok_t :: bool
  taskId :: string
  name_t :: string
  totalCount :: int
  availableServers :: int
  perServerAssigned :: "(string \<times> string \<times> int) list"
  perWorker :: "(DispatchResult \<times> int) list"
  successServers :: int
  failedServers :: int
  createdTotal :: int
  totalElapsedMs :: int

text \<open>A remote call: the address posted to and the JSON payload.\<close>

type_synonym call = "string \<times> (string \<times> pyval) list"

definition payload_of :: "string \<Rightarrow> string \<Rightarrow> int \<Rightarrow> (string \<times> pyval) list" where
  "payload_of task_id nm c = [(''taskId'', PStr task_id), (''name'', PStr nm), (''count'', PInt c)]"

definition call_of :: "string \<Rightarrow> string \<Rightarrow> Worker \<times> int \<Rightarrow> call" where
  "call_of task_id nm a = (url (fst a) @ ''/execute'', payload_of task_id nm (snd a))"

text \<open>
  The fan-out of lines 235 to 241. The network is a parameter: \<open>net i c\<close> is what the
  \<open>i\<close>-th call of the task did and the milliseconds measured around it. The results
  come back in the order of the calls, as \<^verbatim>\<open>asyncio.gather\<close> returns them.
\<close>

fun gather :: "(nat \<Rightarrow> call \<Rightarrow> outcome \<times> int) \<Rightarrow> string \<Rightarrow> string \<Rightarrow> nat \<Rightarrow>
    (Worker \<times> int) list \<Rightarrow> DispatchResult list" where
  "gather net task_id nm i [] = []"
| "gather net task_id nm i (a # as) =
     (let r = net i (call_of task_id nm a)
      in call_worker_execute (fst r) (snd r) (fst a)) # gather net task_id nm (Suc i) as"

text \<open>The loop of lines 244 to 255.\<close>

fun touch_loop :: "rat \<Rightarrow> DispatchResult list \<Rightarrow> registry \<Rightarrow> registry" where
  "touch_loop now [] reg = reg"
| "touch_loop now (r # rs) reg =
     (case map_of reg (workerId r) of
        Some w \<Rightarrow>
          touch_loop now rs
            (dict_set (workerId r)
               \<lparr>id_w = id_w w, label = label w, url = url w, registered_at = registered_at w,
                last_seen_at = now, source = source w\<rparr> reg)
      | None \<Rightarrow> touch_loop now rs reg)"

text \<open>The loop of lines 260 to 263.\<close>

fun created_total_loop ::
  "(string \<Rightarrow> int option) \<Rightarrow> DispatchResult list \<Rightarrow> int \<Rightarrow> pyerror + int" where
  "created_total_loop parse [] acc = Inr acc"
| "created_total_loop parse (x # xs) acc =
     (case result x of
        PDict kv \<Rightarrow>
          (case py_int parse (py_or (dict_get kv ''created'') (PInt 0)) of
             Inl e \<Rightarrow> Inl e
           | Inr v \<Rightarrow> created_total_loop parse xs (acc + v))
      | _ \<Rightarrow> created_total_loop parse xs acc)"

definition assigned_count :: "(Worker \<times> int) list \<Rightarrow> DispatchResult \<Rightarrow> int" where
  "assigned_count assignments x =
     (case find (\<lambda>a. id_w (fst a) = workerId x) assignments of
        Some a \<Rightarrow> snd a
      | None \<Rightarrow> 0)"

text \<open>
  The handler. FastAPI validates the body against \<^verbatim>\<open>CreateTaskIn\<close> before the
  handler's body runs. The result is the response or the error, the state left behind,
  and the remote calls issued, in order. \<open>now\<close> is the clock reading of line 243 and
  \<open>total_elapsed_ms\<close> the measurement of line 257. The environment variable
  \<^verbatim>\<open>WORKER_TIMEOUT_S\<close> is taken to hold a number; the timeout acts inside \<open>net\<close>.
\<close>

definition api_create_task ::
  "(nat \<Rightarrow> call \<Rightarrow> outcome \<times> int) \<Rightarrow> (string \<Rightarrow> int option) \<Rightarrow> rat \<Rightarrow> int \<Rightarrow>
   CreateTaskIn \<Rightarrow> state \<Rightarrow> (pyerror + TaskReport) \<times> state \<times> call list" where
  "api_create_task net parse now total_elapsed_ms body s =
     (if \<not> CreateTaskIn_valid body then (Inl RequestValidationError, s, [])
      else
        let nm = strip (name body);
            cnt = count body;
            ws = get_workers_list (workers s)
        in
          if ws = [] then (Inl (HTTPException 400 NoWorkers), s, [])
          else
            let s1 = s\<lparr>task_seq := task_seq s + 1\<rparr>;
                task_id = ''task-'' @ str_int (task_seq s1)
            in
              (case distribute_evenly cnt ws of
                 Inl e \<Rightarrow> (Inl e, s1, [])
               | Inr plan \<Rightarrow>
                   let assignments = filter (\<lambda>a. snd a > 0) plan;
                       calls = map (call_of task_id nm) assignments;
                       per_worker = gather net task_id nm 0 assignments;
                       s2 = s1\<lparr>workers := touch_loop now per_worker (workers s1)\<rparr>;
                       success = int (length (filter ok per_worker));
                       failed = int (length per_worker) - success
                   in
                     (case created_total_loop parse per_worker 0 of
                        Inl e \<Rightarrow> (Inl e, s2, calls)
                      | Inr created_total \<Rightarrow>
                          (Inr \<lparr>ok_t = True, taskId = task_id, name_t = nm, totalCount = cnt,
                                availableServers = int (length ws),
                                perServerAssigned =
                                  map (\<lambda>a. (id_w (fst a), label (fst a), snd a)) assignments,
                                perWorker =
                                  map (\<lambda>x. (x, assigned_count assignments x)) per_worker,
                                successServers = success, failedServers = failed,
                                createdTotal = created_total,
                                totalElapsedMs = total_elapsed_ms\<rparr>,
                           s2, calls))))"

subsection \<open>The worker's execute endpoint\<close>

record ExecuteIn =
  taskId_e :: "string option"
  name_e :: string
  count_e :: int

definition ExecuteIn_valid :: "ExecuteIn \<Rightarrow> bool" where
  "ExecuteIn_valid body \<longleftrightarrow> 1 \<le> length (name_e body) \<and> 0 \<le> count_e body"

record ExecuteOut =
  ok_e :: bool
  worker_e :: string
  taskId_o :: string
  created :: int
  folder :: string
  sampleFiles :: "string list"
  elapsedMs_e :: int

definition bad :: "char list" where
  "bad = [CHR ''/'', CHR 0x5C, CHR '':'', CHR ''*'', CHR ''?'', CHR 0x22,
          CHR ''<'', CHR ''>'', CHR ''|'']"

definition replace_char :: "char \<Rightarrow> char \<Rightarrow> string \<Rightarrow> string" where
  "replace_char ch by s = map (\<lambda>c. if c = ch then by else c) s"

definition safe_base_name :: "string \<Rightarrow> string" where
  "safe_base_name nm =
     (let s = foldl (\<lambda>s ch. replace_char ch CHR ''_'' s) (strip nm) bad
      in if s \<noteq> [] then take 80 s else ''task'')"

text \<open>
  The worker's environment: its label, the folder \<^verbatim>\<open>~/Desktop/test\<close> as a path, the
  text \<^verbatim>\<open>time.strftime\<close> gives while file \<open>i\<close> is written, and the operating system:
  whether it lets the folder be created and which paths it lets be opened for writing
  (it may refuse for want of space or permission, or reject a name). The file system
  is a map from paths to contents.
\<close>

record worker_env =
  LABEL :: string
  home_folder :: string
  strftime :: "int \<Rightarrow> string"
  can_mkdir :: bool
  can_write :: "string \<Rightarrow> bool"

type_synonym files = "string \<rightharpoonup> string"

text \<open>\<^verbatim>\<open>_ensure_folder\<close>: \<^verbatim>\<open>mkdir\<close> raises \<^verbatim>\<open>OSError\<close> when the system refuses.\<close>

definition ensure_folder :: "worker_env \<Rightarrow> pyerror + string" where
  "ensure_folder env = (if can_mkdir env then Inr (home_folder env) else Inl OSError)"

text \<open>
  \<^verbatim>\<open>Path.write_text\<close>: opening a path that holds a NUL character raises
  \<^verbatim>\<open>ValueError\<close> (embedded null byte) before the system is asked; a path the system
  refuses raises \<^verbatim>\<open>OSError\<close>; otherwise the file holds the text.
\<close>

definition write_text :: "worker_env \<Rightarrow> string \<Rightarrow> string \<Rightarrow> files \<Rightarrow> pyerror + files" where
  "write_text env fp txt fs =
     (if CHR 0x00 \<in> set fp then Inl ValueError
      else if \<not> can_write env fp then Inl OSError
      else Inr (fs(fp \<mapsto> txt)))"

definition join_lines :: "string list \<Rightarrow> string" where
  "join_lines ls = (case ls of [] \<Rightarrow> [] | l # rest \<Rightarrow> l @ concat (map (\<lambda>x. CHR 0x0A # x) rest))"

definition file_name :: "string \<Rightarrow> int \<Rightarrow> string" where
  "file_name base i = base @ ''-'' @ str_int i @ ''.txt''"

definition file_path :: "worker_env \<Rightarrow> string \<Rightarrow> int \<Rightarrow> string" where
  "file_path env base i = home_folder env @ ''/'' @ file_name base i"

definition file_text :: "worker_env \<Rightarrow> string \<Rightarrow> string \<Rightarrow> int \<Rightarrow> string" where
  "file_text env task_id nm i =
     join_lines [''worker='' @ LABEL env,
                 ''taskId='' @ (if task_id \<noteq> [] then task_id else ''-''),
                 ''name='' @ nm,
                 ''index='' @ str_int i,
                 ''createdAt='' @ strftime env i]"

text \<open>
  The loop of lines 69 to 86, over \<^verbatim>\<open>range(1, count + 1)\<close>. An exception of
  \<^verbatim>\<open>write_text\<close> ends it; the files written before stay.
\<close>

fun execute_loop :: "worker_env \<Rightarrow> string \<Rightarrow> string \<Rightarrow> string \<Rightarrow> int list \<Rightarrow>
    files \<times> int \<times> string list \<Rightarrow> (pyerror + int \<times> string list) \<times> files" where
  "execute_loop env task_id nm base [] (fs, n, sample_files) = (Inr (n, sample_files), fs)"
| "execute_loop env task_id nm base (i # is) (fs, n, sample_files) =
     (case write_text env (file_path env base i) (file_text env task_id nm i) fs of
        Inl e \<Rightarrow> (Inl e, fs)
      | Inr fs' \<Rightarrow>
          execute_loop env task_id nm base is
            (fs', n + 1,
             if length sample_files < 5 then sample_files @ [file_name base i]
             else sample_files))"

text \<open>\<^verbatim>\<open>_execute\<close>.\<close>

definition execute0 ::
  "worker_env \<Rightarrow> int \<Rightarrow> string \<Rightarrow> string \<Rightarrow> int \<Rightarrow> files \<Rightarrow> (pyerror + ExecuteOut) \<times> files" where
  "execute0 env elapsed_ms task_id nm cnt fs =
     (case ensure_folder env of
        Inl e \<Rightarrow> (Inl e, fs)
      | Inr dir \<Rightarrow>
          let base = safe_base_name nm
          in (case execute_loop env task_id nm base [1..cnt] (fs, 0, []) of
                (Inl e, fs') \<Rightarrow> (Inl e, fs')
              | (Inr (n, sample_files), fs') \<Rightarrow>
                  (Inr \<lparr>ok_e = True, worker_e = LABEL env, taskId_o = task_id, created = n,
                        folder = dir, sampleFiles = sample_files, elapsedMs_e = elapsed_ms\<rparr>,
                   fs')))"

text \<open>
  The endpoint; FastAPI validates the body against \<^verbatim>\<open>ExecuteIn\<close> first. An exception
  that \<^verbatim>\<open>_execute\<close> raises is not caught: the worker answers 500.
\<close>

definition execute :: "worker_env \<Rightarrow> int \<Rightarrow> ExecuteIn \<Rightarrow> files \<Rightarrow> (pyerror + ExecuteOut) \<times> files" where
  "execute env elapsed_ms body fs =
     (if \<not> ExecuteIn_valid body then (Inl RequestValidationError, fs)
      else
        let nm = strip (name_e body) in
        if nm = [] then (Inl (HTTPException 400 EmptyName), fs)
        else if count_e body < 0 then (Inl (HTTPException 400 NegativeCount), fs)
        else
          execute0 env elapsed_ms (case taskId_e body of None \<Rightarrow> [] | Some t \<Rightarrow> t)
            nm (count_e body) fs)"

subsection \<open>Sums of created counts\<close>

text \<open>
  What a payload reports as created: the \<^verbatim>\<open>created\<close> member of a JSON object when it
  is an integer, or a finite float (truncated towards zero); \<open>0\<close> when the member is
  missing or is anything else, and \<open>0\<close> for a payload that is not an object.
\<close>

fun created_of :: "pyval \<Rightarrow> int" where
  "created_of (PDict kv) =
     (case dict_get kv ''created'' of
        PInt i \<Rightarrow> i
      | PFloat (FFinite q) \<Rightarrow> trunc q
      | _ \<Rightarrow> 0)"
| "created_of _ = 0"

text \<open>
  The total as the specification words it: the sum over the successful results only.
\<close>

definition spec_created_total :: "DispatchResult list \<Rightarrow> int" where
  "spec_created_total rs = sum_list (map (\<lambda>x. created_of (result x)) (filter ok rs))"

text \<open>The sum over all results, successful or not.\<close>

definition created_sum_all :: "DispatchResult list \<Rightarrow> int" where
  "created_sum_all rs = sum_list (map (\<lambda>x. created_of (result x)) rs)"

text \<open>A \<^verbatim>\<open>created\<close> member that is missing, an integer or a finite float.\<close>

fun created_plain :: "pyval \<Rightarrow> bool" where
  "created_plain PNone = True"
| "created_plain (PInt i) = True"
| "created_plain (PFloat (FFinite q)) = True"
| "created_plain _ = False"

subsection \<open>The registry invariant\<close>

text \<open>
  What a Python dictionary keyed by the worker id gives: no key twice, and every
  worker stored under its own id.
\<close>

definition registry_ok :: "registry \<Rightarrow> bool" where
  "registry_ok reg \<longleftrightarrow> distinct (map fst reg) \<and> (\<forall>p \<in> set reg. id_w (snd p) = fst p)"

subsection \<open>Sample data\<close>

definition w_a :: Worker where
  "w_a = \<lparr>id_w = ''a'', label = ''mac-1'', url = ''http://a'', registered_at = 1,
          last_seen_at = 1, source = ''env''\<rparr>"

definition w_b :: Worker where
  "w_b = \<lparr>id_w = ''b'', label = ''mac-2'', url = ''http://b'', registered_at = 2,
          last_seen_at = 2, source = ''register''\<rparr>"

definition r_a :: DispatchResult where
  "r_a = \<lparr>workerId = ''a'', label_r = ''mac-1'', url_r = ''http://a'', ok = False, status = 0,
          elapsedMs = 60000, result = PNone, error = PStr ''timed out''\<rparr>"

definition r_gone :: DispatchResult where
  "r_gone = \<lparr>workerId = ''gone'', label_r = ''mac-3'', url_r = ''http://c'', ok = True,
             status = 200, elapsedMs = 5, result = PNone, error = PNone\<rparr>"

definition bad_url_body :: RegisterWorkerIn where
  "bad_url_body = \<lparr>url_in = ''ftp://x'', label_in = ''worker'', id_in = None\<rparr>"

definition s_a :: state where
  "s_a = \<lparr>workers = [(''a'', w_a)], task_seq = 0\<rparr>"

definition s_empty :: state where
  "s_empty = \<lparr>workers = [], task_seq = 7\<rparr>"

definition s_ab :: state where
  "s_ab = \<lparr>workers = [(''b'', w_b), (''a'', w_a)], task_seq = 0\<rparr>"

definition job1 :: CreateTaskIn where
  "job1 = \<lparr>name = '' job '', count = 1\<rparr>"

definition net_500 :: "nat \<Rightarrow> call \<Rightarrow> outcome \<times> int" where
  "net_500 i c = (Responded 500 (Some (PDict [(''created'', PInt 3), (''error'', PStr ''disk full'')])), 3)"

definition parse_none :: "string \<Rightarrow> int option" where
  "parse_none s = None"

definition report_500 :: TaskReport where
  "report_500 =
     \<lparr>ok_t = True, taskId = ''task-1'', name_t = ''job'', totalCount = 1,
      availableServers = 2, perServerAssigned = [(''a'', ''mac-1'', 1)],
      perWorker = [(\<lparr>workerId = ''a'', label_r = ''mac-1'', url_r = ''http://a'', ok = False,
                     status = 500, elapsedMs = 3,
                     result = PDict [(''created'', PInt 3), (''error'', PStr ''disk full'')],
                     error = PStr ''disk full''\<rparr>, 1)],
      successServers = 0, failedServers = 1, createdTotal = 3, totalElapsedMs = 4\<rparr>"

definition body_re :: RegisterWorkerIn where
  "body_re = \<lparr>url_in = '' https://new/ '', label_in = ''mac-9'', id_in = Some ''a''\<rparr>"

definition w_re :: Worker where
  "w_re = \<lparr>id_w = ''a'', label = ''mac-9'', url = ''https://new'', registered_at = 1,
           last_seen_at = 5, source = ''register''\<rparr>"

definition body_x :: RegisterWorkerIn where
  "body_x = \<lparr>url_in = ''http://x'', label_in = ''worker'', id_in = None\<rparr>"

definition body_y :: RegisterWorkerIn where
  "body_y = \<lparr>url_in = ''http://y'', label_in = ''worker'', id_in = None\<rparr>"

definition t_x :: rat where
  "t_x = 1700000000"

definition t_y :: rat where
  "t_y = 1700000000 + 1 / 4096"

definition s_none :: state where
  "s_none = \<lparr>workers = [], task_seq = 0\<rparr>"

definition w_x :: Worker where
  "w_x = \<lparr>id_w = ''reg-1700000000000'', label = ''worker'', url = ''http://x'',
          registered_at = t_x, last_seen_at = t_x, source = ''register''\<rparr>"

definition w_y :: Worker where
  "w_y = \<lparr>id_w = ''reg-1700000000000'', label = ''worker'', url = ''http://y'',
          registered_at = t_x, last_seen_at = t_y, source = ''register''\<rparr>"

definition s_x :: state where
  "s_x = \<lparr>workers = [(''reg-1700000000000'', w_x)], task_seq = 0\<rparr>"

definition s_y :: state where
  "s_y = \<lparr>workers = [(''reg-1700000000000'', w_y)], task_seq = 0\<rparr>"

definition stamp :: "int \<Rightarrow> string" where
  "stamp i = ''2026-01-01T00:00:00Z''"

definition any_path :: "string \<Rightarrow> bool" where
  "any_path p = True"

definition no_path :: "string \<Rightarrow> bool" where
  "no_path p = False"

definition env_mac :: worker_env where
  "env_mac = \<lparr>LABEL = ''mac-worker'', home_folder = ''/Users/u/Desktop/test'', strftime = stamp,
              can_mkdir = True, can_write = any_path\<rparr>"

definition env_full :: worker_env where
  "env_full = \<lparr>LABEL = ''mac-worker'', home_folder = ''/Users/u/Desktop/test'', strftime = stamp,
               can_mkdir = True, can_write = no_path\<rparr>"

definition job_nul :: ExecuteIn where
  "job_nul = \<lparr>taskId_e = Some ''task-1'', name_e = [CHR ''a'', CHR 0x00, CHR ''b''], count_e = 1\<rparr>"

definition job_e :: ExecuteIn where
  "job_e = \<lparr>taskId_e = Some ''task-1'', name_e = '' job '', count_e = 6\<rparr>"

definition net_list :: "nat \<Rightarrow> call \<Rightarrow> outcome \<times> int" where
  "net_list i c = (Responded 200 (Some (PDict [(''created'', PList [PInt 1])])), 3)"

definition no_files :: files where
  "no_files = Map.empty"

declare normalize_loop.simps [simp del]
declare str_nat.simps [simp del]
declare bit_len.simps [simp del]

section \<open>Properties\<close>

subsection \<open>Properties of the distribution loop\<close>

lemma distribute_loop_length: "length (distribute_loop b r i ws) = length ws"
  by (induction ws arbitrary: i) simp_all

lemma distribute_loop_fst: "map fst (distribute_loop b r i ws) = ws"
  by (induction ws arbitrary: i) simp_all

lemma distribute_loop_nth:
  "k < length ws \<Longrightarrow>
   distribute_loop b r i ws ! k = (ws ! k, b + (if int (i + k) < r then 1 else 0))"
proof (induction ws arbitrary: i k)
  case Nil
  then show ?case by simp
next
  case (Cons w ws)
  show ?case
  proof (cases k)
    case 0
    then show ?thesis by simp
  next
    case (Suc j)
    with Cons.prems have "j < length ws" by simp
    from Cons.IH [OF this, of "Suc i"] Suc show ?thesis by simp
  qed
qed

lemma distribute_loop_sum:
  "sum_list (map snd (distribute_loop b r i ws)) =
   b * int (length ws) + max 0 (min r (int (i + length ws)) - int i)"
  by (induction ws arbitrary: i) (auto simp: algebra_simps)

lemma distribute_loop_extra:
  "length (filter (\<lambda>p. snd p = b + 1) (distribute_loop b r i ws)) =
   nat (max 0 (min r (int (i + length ws)) - int i))"
  by (induction ws arbitrary: i) (auto simp: algebra_simps)

text \<open>
  Claim C1. For every total \<open>\<ge> 0\<close> and every non-empty worker list of length \<open>N\<close>,
  \<^verbatim>\<open>_distribute_evenly\<close> returns exactly \<open>N\<close> pairs, the workers in input order, whose
  counts sum to the total; the count at position \<open>k\<close> is \<open>base + 1\<close> when
  \<open>k < total mod N\<close> and \<open>base\<close> otherwise, where \<open>base = total div N\<close>; and exactly
  \<open>total mod N\<close> entries carry \<open>base + 1\<close>.
\<close>

theorem distribute_evenly_correct:
  assumes "0 \<le> tot" and "ws \<noteq> []"
  shows "\<exists>out. distribute_evenly tot ws = Inr out
           \<and> length out = length ws
           \<and> map fst out = ws
           \<and> sum_list (map snd out) = tot
           \<and> (\<forall>k < length ws. snd (out ! k) =
                 (if int k < tot mod int (length ws) then tot div int (length ws) + 1
                  else tot div int (length ws)))
           \<and> length (filter (\<lambda>p. snd p = tot div int (length ws) + 1) out)
               = nat (tot mod int (length ws))"
proof -
  let ?n = "int (length ws)"
  let ?b = "tot div ?n"
  let ?r = "tot mod ?n"
  let ?out = "distribute_loop ?b ?r 0 ws"
  from assms have n: "0 < ?n" by simp
  then have r0: "0 \<le> ?r" and r1: "?r < ?n" by simp_all
  have eq: "distribute_evenly tot ws = Inr ?out"
    using n by (simp add: distribute_evenly_def Let_def)
  have ex: "max 0 (min ?r (int (0 + length ws)) - int 0) = ?r"
    using r0 r1 by simp
  have s: "sum_list (map snd ?out) = tot"
    unfolding distribute_loop_sum ex by (simp add: mult.commute)
  have nth: "\<forall>k < length ws. snd (?out ! k) = (if int k < ?r then ?b + 1 else ?b)"
    by (simp add: distribute_loop_nth)
  have f: "length (filter (\<lambda>p. snd p = ?b + 1) ?out) = nat ?r"
    unfolding distribute_loop_extra ex ..
  show ?thesis
    using eq s nth f by (simp add: distribute_loop_length distribute_loop_fst)
qed

theorem distribute_evenly_correct_witness:
  "(0::int) \<le> 10 \<and> [''a'', ''b'', ''c''] \<noteq> []
   \<and> distribute_evenly 10 [''a'', ''b'', ''c''] = Inr [(''a'', 4), (''b'', 3), (''c'', 3)]"
  using distribute_evenly_correct [of 10 "[''a'', ''b'', ''c'']"]
  by (simp add: distribute_evenly_def)

subsection \<open>The registry as a dictionary\<close>

lemma dict_set_map_of: "map_of (dict_set k w reg) = (map_of reg)(k \<mapsto> w)"
  by (simp add: dict_set_def update_conv')

lemma dict_set_keys_present:
  "map_of reg k = Some v \<Longrightarrow> map fst (dict_set k w reg) = map fst reg"
  by (induction reg) (auto simp: dict_set_def)

lemma dict_set_keys_fresh:
  "map_of reg k = None \<Longrightarrow> map fst (dict_set k w reg) = map fst reg @ [k]"
  by (induction reg) (auto simp: dict_set_def)

lemma dict_set_distinct: "distinct (map fst reg) \<Longrightarrow> distinct (map fst (dict_set k w reg))"
  by (simp add: dict_set_def distinct_update)

subsection \<open>Refreshing the last-seen time\<close>

lemma touched_eq:
  "\<lparr>id_w = id_w w, label = label w, url = url w, registered_at = registered_at w,
    last_seen_at = now, source = source w\<rparr> = (w::Worker)\<lparr>last_seen_at := now\<rparr>"
  by (cases w) simp

lemma touch_loop_keys: "map fst (touch_loop now rs reg) = map fst reg"
  by (induction rs arbitrary: reg) (auto simp: dict_set_keys_present split: option.splits)

lemma touch_loop_map_of:
  "map_of (touch_loop now rs reg) k =
     (case map_of reg k of
        None \<Rightarrow> None
      | Some w \<Rightarrow> Some (if k \<in> workerId ` set rs then w\<lparr>last_seen_at := now\<rparr> else w))"
proof (induction rs arbitrary: reg)
  case Nil
  then show ?case by (simp split: option.splits)
next
  case (Cons r rs)
  show ?case
  proof (cases "map_of reg (workerId r)")
    case None
    then show ?thesis using Cons.IH [of reg] by (auto split: option.splits)
  next
    case (Some w)
    then show ?thesis
      using Cons.IH [of "dict_set (workerId r) (w\<lparr>last_seen_at := now\<rparr>) reg"]
      by (auto simp: dict_set_map_of touched_eq split: option.splits)
  qed
qed

text \<open>
  What the loop does to any registry, over any list of results: the keys and their
  order stay; an entry whose id is among the results gets \<open>last_seen_at = now\<close> and
  keeps its other fields; every other entry is unchanged; an absent id stays absent.
\<close>

lemma touch_loop_frame:
  "map fst (touch_loop now rs reg) = map fst reg
   \<and> (\<forall>k w. map_of reg k = Some w \<and> k \<in> workerId ` set rs \<longrightarrow>
         (\<exists>w'. map_of (touch_loop now rs reg) k = Some w'
            \<and> last_seen_at w' = now \<and> id_w w' = id_w w \<and> label w' = label w
            \<and> url w' = url w \<and> registered_at w' = registered_at w \<and> source w' = source w))
   \<and> (\<forall>k w. map_of reg k = Some w \<and> k \<notin> workerId ` set rs \<longrightarrow>
         map_of (touch_loop now rs reg) k = Some w)
   \<and> (\<forall>k. map_of reg k = None \<longrightarrow> map_of (touch_loop now rs reg) k = None)"
  by (simp add: touch_loop_keys touch_loop_map_of)

lemma touch_loop_frame_example:
  "map_of [(''a'', w_a), (''b'', w_b)] ''a'' = Some w_a \<and> ''a'' \<in> workerId ` set [r_a, r_gone]
   \<and> map_of [(''a'', w_a), (''b'', w_b)] ''b'' = Some w_b \<and> ''b'' \<notin> workerId ` set [r_a, r_gone]
   \<and> map_of [(''a'', w_a), (''b'', w_b)] ''gone'' = None
   \<and> touch_loop 9 [r_a, r_gone] [(''a'', w_a), (''b'', w_b)]
       = [(''a'', w_a\<lparr>last_seen_at := 9\<rparr>), (''b'', w_b)]"
  using touch_loop_frame [of 9 "[r_a, r_gone]" "[(''a'', w_a), (''b'', w_b)]"]
  by (simp add: r_a_def r_gone_def dict_set_def w_a_def)

subsection \<open>Rejected requests\<close>

lemma normalize_url_ftp: "normalize_url ''ftp://x'' = ''ftp://x''"
  by (simp add: normalize_url_def strip_def isspace_def normalize_loop.simps endswith_def)

text \<open>
  Claim C6. When the normalized url of a registration is empty or begins with neither
  \<^verbatim>\<open>http://\<close> nor \<^verbatim>\<open>https://\<close>, the handler raises an \<^verbatim>\<open>HTTPException\<close> with status
  400 and leaves the state, the registry included, exactly as it was.
\<close>

theorem register_rejects_bad_endpoint:
  assumes "normalize_url (url_in body) = []
           \<or> \<not> (startswith (normalize_url (url_in body)) ''http://''
                \<or> startswith (normalize_url (url_in body)) ''https://'')"
  shows "api_register_worker t now body s =
           (Inl (HTTPException 400
                  (if normalize_url (url_in body) = [] then MissingUrl else BadScheme)), s)"
  using assms by (auto simp: api_register_worker_def Let_def)

theorem register_rejects_bad_endpoint_witness:
  "(normalize_url (url_in bad_url_body) = []
    \<or> \<not> (startswith (normalize_url (url_in bad_url_body)) ''http://''
         \<or> startswith (normalize_url (url_in bad_url_body)) ''https://''))
   \<and> api_register_worker 5 5 bad_url_body s_a = (Inl (HTTPException 400 BadScheme), s_a)"
proof -
  have u: "normalize_url (url_in bad_url_body) = ''ftp://x''"
    by (simp add: bad_url_body_def normalize_url_ftp)
  have h: "normalize_url (url_in bad_url_body) = []
    \<or> \<not> (startswith (normalize_url (url_in bad_url_body)) ''http://''
         \<or> startswith (normalize_url (url_in bad_url_body)) ''https://'')"
    by (simp add: u startswith_def)
  from register_rejects_bad_endpoint [OF h, of 5 5 s_a] h show ?thesis
    by (simp add: u)
qed

text \<open>
  Claim C5. With an empty registry, a task request fails: a valid body gets the
  \<^verbatim>\<open>HTTPException\<close> with status 400 that tells the caller no worker is available (a
  body that the model \<^verbatim>\<open>CreateTaskIn\<close> rejects fails validation before that). The
  state returned is the state given, task counter and registry included, and the list
  of remote calls issued is empty.
\<close>

theorem create_task_no_workers:
  assumes "workers s = []"
  shows "api_create_task net parse now total_elapsed_ms body s =
           (Inl (if CreateTaskIn_valid body then HTTPException 400 NoWorkers
                 else RequestValidationError), s, [])"
  using assms by (simp add: api_create_task_def get_workers_list_def)

theorem create_task_no_workers_witness:
  "workers s_empty = []
   \<and> api_create_task (\<lambda>i c. (Raised ''down'', 0)) (\<lambda>s. None) 9 3 \<lparr>name = ''job'', count = 4\<rparr>
        s_empty
      = (Inl (HTTPException 400 NoWorkers), s_empty, [])"
  using create_task_no_workers [of s_empty "\<lambda>i c. (Raised ''down'', 0)"
      "\<lambda>s. None" 9 3 "\<lparr>name = ''job'', count = 4\<rparr>"]
  by (simp add: CreateTaskIn_valid_def s_empty_def)

subsection \<open>The outcome of one call\<close>

lemma call_worker_execute_non_2xx:
  "\<not> (200 \<le> code \<and> code < 300) \<Longrightarrow>
   ok (call_worker_execute (Responded code body) elapsed w) = False
   \<and> status (call_worker_execute (Responded code body) elapsed w) = code
   \<and> error (call_worker_execute (Responded code body) elapsed w) =
       (case body of
          Some (PDict kv) \<Rightarrow> dict_get kv ''error''
        | _ \<Rightarrow> PStr (''HTTP '' @ str_int code))"
  by (auto simp: call_worker_execute_def Let_def split: option.splits pyval.splits)

lemma call_worker_execute_ok_no_error:
  "ok (call_worker_execute out elapsed w) \<Longrightarrow> error (call_worker_execute out elapsed w) = PNone"
  by (auto simp: call_worker_execute_def Let_def split: outcome.splits)

text \<open>
  Claim C3, at the input where the code departs from it. A worker answers 400 with a
  JSON object that has no \<^verbatim>\<open>error\<close> member (the shape of the answers that the
  worker of this repository gives when it rejects a request). The result has
  \<open>ok = False\<close> and \<open>status = 400\<close>, and its \<open>error\<close> is \<^verbatim>\<open>None\<close>, not \<^verbatim>\<open>"HTTP 400"\<close>.
\<close>

theorem call_worker_execute_error_absent:
  "call_worker_execute (Responded 400 (Some (PDict [(''detail'', PStr ''name'')]))) 12 w_a
   = \<lparr>workerId = ''a'', label_r = ''mac-1'', url_r = ''http://a'', ok = False, status = 400,
      elapsedMs = 12, result = PDict [(''detail'', PStr ''name'')], error = PNone\<rparr>"
  by (simp add: call_worker_execute_def dict_get_def w_a_def)

subsection \<open>Decimal rendering\<close>

lemma below_ten:
  "(d::nat) < 10 \<Longrightarrow> d = 0 \<or> d = 1 \<or> d = 2 \<or> d = 3 \<or> d = 4 \<or> d = 5 \<or> d = 6 \<or> d = 7 \<or> d = 8 \<or> d = 9"
  by arith

lemma digit_inj: "a < 10 \<Longrightarrow> b < 10 \<Longrightarrow> digit a = digit b \<Longrightarrow> a = b"
proof -
  assume a: "a < 10" and b: "b < 10" and e: "digit a = digit b"
  have d: "distinct ''0123456789''" by simp
  have "length ''0123456789'' = 10" by simp
  with a b e d show "a = b"
    unfolding digit_def by (metis nth_eq_iff_index_eq)
qed

lemma digit_not_minus: "d < 10 \<Longrightarrow> digit d \<noteq> CHR ''-''"
  using below_ten [of d] by (auto simp: digit_def)

lemma str_nat_nonempty: "str_nat n \<noteq> []"
  by (subst str_nat.simps) simp

lemma str_nat_hd: "hd (str_nat n) \<noteq> CHR ''-''"
proof (induction n rule: str_nat.induct)
  case (1 n)
  show ?case
  proof (cases "n < 10")
    case True
    then show ?thesis by (subst str_nat.simps) (simp add: digit_not_minus)
  next
    case False
    with 1 have "hd (str_nat (n div 10)) \<noteq> CHR ''-''" by simp
    with False show ?thesis
      by (subst str_nat.simps) (simp add: str_nat_nonempty)
  qed
qed

lemma str_nat_inj: "str_nat n = str_nat m \<Longrightarrow> n = m"
proof (induction n arbitrary: m rule: str_nat.induct)
  case (1 n)
  show ?case
  proof (cases "n < 10")
    case n: True
    show ?thesis
    proof (cases "m < 10")
      case True
      with n "1.prems" show ?thesis
        by (simp add: str_nat.simps [of n] str_nat.simps [of m] digit_inj)
    next
      case False
      with n "1.prems" str_nat_nonempty [of "m div 10"] show ?thesis
        by (auto simp: str_nat.simps [of n] str_nat.simps [of m])
    qed
  next
    case n: False
    show ?thesis
    proof (cases "m < 10")
      case True
      with n "1.prems" str_nat_nonempty [of "n div 10"] show ?thesis
        by (auto simp: str_nat.simps [of n] str_nat.simps [of m])
    next
      case False
      with n "1.prems" have e: "str_nat (n div 10) = str_nat (m div 10)"
        and d: "digit (n mod 10) = digit (m mod 10)"
        by (simp_all add: str_nat.simps [of n] str_nat.simps [of m])
      from "1.IH" [OF n e] have "n div 10 = m div 10" .
      moreover from d have "n mod 10 = m mod 10" by (simp add: digit_inj)
      ultimately show ?thesis by (metis div_mult_mod_eq)
    qed
  qed
qed

lemma str_int_inj: "str_int i = str_int j \<Longrightarrow> i = j"
proof -
  assume e: "str_int i = str_int j"
  have neg: "hd (CHR ''-'' # xs) = CHR ''-''" for xs by simp
  show ?thesis
  proof (cases "i < 0")
    case i: True
    show ?thesis
    proof (cases "j < 0")
      case True
      with i e have "nat (- i) = nat (- j)" by (simp add: str_int_def str_nat_inj)
      with i True show ?thesis by simp
    next
      case False
      with i e have "CHR ''-'' # str_nat (nat (- i)) = str_nat (nat j)" by (simp add: str_int_def)
      then have "hd (str_nat (nat j)) = CHR ''-''" by (metis neg)
      then show ?thesis by (simp add: str_nat_hd)
    qed
  next
    case i: False
    show ?thesis
    proof (cases "j < 0")
      case True
      with i e have "str_nat (nat i) = CHR ''-'' # str_nat (nat (- j))" by (simp add: str_int_def)
      then have "hd (str_nat (nat i)) = CHR ''-''" by (metis neg)
      then show ?thesis by (simp add: str_nat_hd)
    next
      case False
      with i e have "nat i = nat j" by (simp add: str_int_def str_nat_inj)
      with i False show ?thesis by simp
    qed
  qed
qed

subsection \<open>A run of the handler\<close>

lemma get_workers_list_s_ab: "get_workers_list (workers s_ab) = [w_a, w_b]"
  by (simp add: s_ab_def get_workers_list_def sort_key_def w_a_def w_b_def)

lemma strip_job: "strip '' job '' = ''job''"
  by (simp add: strip_def isspace_def)

lemma str_int_1: "str_int 1 = ''1''"
  by (simp add: str_int_def str_nat.simps digit_def)

lemma job1_valid: "CreateTaskIn_valid job1"
  by (simp add: CreateTaskIn_valid_def job1_def)

lemma run_job1_500:
  "api_create_task net_500 parse_none 9 4 job1 s_ab =
    (Inr report_500,
     \<lparr>workers = [(''b'', w_b), (''a'', w_a\<lparr>last_seen_at := 9\<rparr>)], task_seq = 1\<rparr>,
     [(''http://a/execute'', [(''taskId'', PStr ''task-1''), (''name'', PStr ''job''), (''count'', PInt 1)])])"
  apply (simp add: api_create_task_def get_workers_list_s_ab Let_def job1_def strip_job
      CreateTaskIn_valid_def distribute_evenly_def)
  apply (simp add: s_ab_def str_int_1 net_500_def call_of_def payload_of_def dict_get_def
      call_worker_execute_def w_a_def w_b_def dict_set_def py_or_def assigned_count_def
      report_500_def)
  done

subsection \<open>The fan-out\<close>

lemma gather_length: "length (gather net tid nm i as) = length as"
  by (induction as arbitrary: i) (simp_all add: Let_def)

lemma call_worker_execute_workerId: "workerId (call_worker_execute out el w) = id_w w"
  by (simp add: call_worker_execute_def Let_def split: outcome.splits)

lemma gather_workerId: "map workerId (gather net tid nm i as) = map (\<lambda>a. id_w (fst a)) as"
  by (induction as arbitrary: i) (simp_all add: Let_def call_worker_execute_workerId)

text \<open>
  What the handler leaves in the state once the calls have settled: the registry after
  the loop over the results of the calls, and the task counter advanced by one.
\<close>

lemma create_task_registry:
  assumes "CreateTaskIn_valid body"
    and "get_workers_list (workers s) \<noteq> []"
  shows "\<exists>plan. distribute_evenly (count body) (get_workers_list (workers s)) = Inr plan
           \<and> workers (fst (snd (api_create_task net parse now total_elapsed_ms body s))) =
               touch_loop now
                 (gather net (''task-'' @ str_int (task_seq s + 1)) (strip (name body)) 0
                    (filter (\<lambda>a. 0 < snd a) plan))
                 (workers s)
           \<and> task_seq (fst (snd (api_create_task net parse now total_elapsed_ms body s))) =
               task_seq s + 1"
proof -
  from assms(2) obtain plan
    where d: "distribute_evenly (count body) (get_workers_list (workers s)) = Inr plan"
    by (auto simp: distribute_evenly_def Let_def)
  show ?thesis
    using assms d by (simp add: api_create_task_def Let_def split: sum.splits)
qed

lemma distribute_loop_positive:
  "filter (\<lambda>a. 0 < snd a) (distribute_loop 0 r i ws) =
   map (\<lambda>w. (w, 1)) (take (nat (r - int i)) ws)"
proof (induction ws arbitrary: i)
  case Nil
  then show ?case by simp
next
  case (Cons w ws)
  show ?case
  proof (cases "int i < r")
    case True
    then have "nat (r - int i) = Suc (nat (r - int (Suc i)))" by simp
    with True Cons.IH [of "Suc i"] show ?thesis by simp
  next
    case False
    then have "nat (r - int i) = 0" "nat (r - int (Suc i)) = 0" by simp_all
    with False Cons.IH [of "Suc i"] show ?thesis by simp
  qed
qed

lemma distribute_evenly_few:
  assumes "0 \<le> c" and "c < int (length ws)"
  shows "distribute_evenly c ws = Inr (distribute_loop 0 c 0 ws)"
  using assms by (auto simp: distribute_evenly_def Let_def)

text \<open>
  Claim C8. The handler keeps only the assignments with a positive count before it
  calls anyone. With a valid request whose count is below the number \<open>N\<close> of workers,
  the remote calls issued are exactly one call, for one unit, to each of the first
  \<open>count\<close> workers of the registry list, in that order; when a report is returned, its
  per-worker results and its assignment plan name exactly those workers, so a worker
  assigned zero units is not called and has no result.
\<close>

theorem create_task_drops_zero_counts:
  assumes "CreateTaskIn_valid body"
    and "count body < int (length (get_workers_list (workers s)))"
  shows "snd (snd (api_create_task net parse now total_elapsed_ms body s)) =
           map (\<lambda>w. call_of (''task-'' @ str_int (task_seq s + 1)) (strip (name body)) (w, 1))
             (take (nat (count body)) (get_workers_list (workers s)))
         \<and> (\<forall>rep. fst (api_create_task net parse now total_elapsed_ms body s) = Inr rep \<longrightarrow>
               map (\<lambda>x. workerId (fst x)) (perWorker rep) =
                 map id_w (take (nat (count body)) (get_workers_list (workers s)))
               \<and> perServerAssigned rep =
                 map (\<lambda>w. (id_w w, label w, 1)) (take (nat (count body)) (get_workers_list (workers s))))"
proof -
  let ?ws = "get_workers_list (workers s)"
  from assms have c: "0 \<le> count body" "count body < int (length ?ws)"
    by (simp_all add: CreateTaskIn_valid_def)
  then have ne: "?ws \<noteq> []" by auto
  have d: "distribute_evenly (count body) ?ws = Inr (distribute_loop 0 (count body) 0 ?ws)"
    using c by (rule distribute_evenly_few)
  have f: "filter (\<lambda>a. 0 < snd a) (distribute_loop 0 (count body) 0 ?ws) =
           map (\<lambda>w. (w, 1)) (take (nat (count body)) ?ws)"
    using distribute_loop_positive [of "count body" 0 ?ws] by simp
  show ?thesis
    using assms(1) ne
    by (simp add: api_create_task_def Let_def d f gather_workerId comp_def
        split: sum.splits)
qed

theorem create_task_drops_zero_counts_witness:
  "CreateTaskIn_valid job1
   \<and> count job1 < int (length (get_workers_list (workers s_ab)))
   \<and> snd (snd (api_create_task net_500 parse_none 9 4 job1 s_ab)) =
       [(''http://a/execute'',
         [(''taskId'', PStr ''task-1''), (''name'', PStr ''job''), (''count'', PInt 1)])]
   \<and> map (\<lambda>x. workerId (fst x)) (perWorker report_500) = [''a'']"
proof -
  have h: "count job1 < int (length (get_workers_list (workers s_ab)))"
    by (simp add: get_workers_list_s_ab job1_def)
  from create_task_drops_zero_counts [OF job1_valid h, of net_500 parse_none 9 4]
  show ?thesis
    using job1_valid h by (simp add: run_job1_500) (simp add: report_500_def)
qed

subsection \<open>The registry after a dispatch\<close>

lemma touch_loop_absent:
  "\<forall>r \<in> set rs. map_of reg (workerId r) = None \<Longrightarrow> touch_loop now rs reg = reg"
  by (induction rs arbitrary: reg) simp_all

lemma create_task_calls:
  assumes "CreateTaskIn_valid body"
    and "distribute_evenly (count body) (get_workers_list (workers s)) = Inr plan"
    and "get_workers_list (workers s) \<noteq> []"
  shows "snd (snd (api_create_task net parse now total_elapsed_ms body s)) =
           map (call_of (''task-'' @ str_int (task_seq s + 1)) (strip (name body)))
             (filter (\<lambda>a. 0 < snd a) plan)"
  using assms by (simp add: api_create_task_def Let_def split: sum.splits)

text \<open>
  Claim C7. For a valid request and a non-empty registry the handler calls the workers
  whose assigned count is positive, and whatever the calls did (an answer of any
  status, or an exception such as a timeout) and whether or not a report is returned,
  the state it leaves has the same registry keys in the same order; the entry of every
  called worker has \<open>last_seen_at = now\<close> and its id, label, url, registration time and
  source as before; every entry whose id was not called is unchanged. The loop that
  refreshes the entries skips a result whose id the registry does not hold: when none
  of the ids is present it returns the registry as it was, and raises nothing.
\<close>

theorem create_task_touches_called:
  assumes "CreateTaskIn_valid body"
    and "get_workers_list (workers s) \<noteq> []"
  shows "\<exists>plan. distribute_evenly (count body) (get_workers_list (workers s)) = Inr plan
     \<and> snd (snd (api_create_task net parse now total_elapsed_ms body s)) =
         map (call_of (''task-'' @ str_int (task_seq s + 1)) (strip (name body)))
           (filter (\<lambda>a. 0 < snd a) plan)
     \<and> map fst (workers (fst (snd (api_create_task net parse now total_elapsed_ms body s))))
         = map fst (workers s)
     \<and> (\<forall>k w. map_of (workers s) k = Some w
              \<and> k \<in> (\<lambda>a. id_w (fst a)) ` set (filter (\<lambda>a. 0 < snd a) plan) \<longrightarrow>
           map_of (workers (fst (snd (api_create_task net parse now total_elapsed_ms body s)))) k
             = Some \<lparr>id_w = id_w w, label = label w, url = url w,
                     registered_at = registered_at w, last_seen_at = now, source = source w\<rparr>)
     \<and> (\<forall>k w. map_of (workers s) k = Some w
              \<and> k \<notin> (\<lambda>a. id_w (fst a)) ` set (filter (\<lambda>a. 0 < snd a) plan) \<longrightarrow>
           map_of (workers (fst (snd (api_create_task net parse now total_elapsed_ms body s)))) k
             = Some w)
     \<and> (\<forall>k. map_of (workers s) k = None \<longrightarrow>
           map_of (workers (fst (snd (api_create_task net parse now total_elapsed_ms body s)))) k
             = None)
     \<and> ((\<forall>r \<in> set rs. map_of reg (workerId r) = None) \<longrightarrow> touch_loop now rs reg = reg)"
proof -
  let ?R = "api_create_task net parse now total_elapsed_ms body s"
  let ?tid = "''task-'' @ str_int (task_seq s + 1)"
  from create_task_registry [OF assms, of net parse now total_elapsed_ms]
  obtain plan where d: "distribute_evenly (count body) (get_workers_list (workers s)) = Inr plan"
    and w: "workers (fst (snd ?R)) =
        touch_loop now (gather net ?tid (strip (name body)) 0 (filter (\<lambda>a. 0 < snd a) plan))
          (workers s)"
    by blast
  let ?as = "filter (\<lambda>a. 0 < snd a) plan"
  let ?rs = "gather net ?tid (strip (name body)) 0 ?as"
  have ids: "workerId ` set ?rs = (\<lambda>a. id_w (fst a)) ` set ?as"
    using gather_workerId [of net ?tid "strip (name body)" 0 ?as]
    by (metis set_map)
  have calls: "snd (snd ?R) = map (call_of ?tid (strip (name body))) ?as"
    using assms(1) d assms(2) by (rule create_task_calls)
  have keys: "map fst (workers (fst (snd ?R))) = map fst (workers s)"
    unfolding w by (rule touch_loop_keys)
  have look: "map_of (workers (fst (snd ?R))) k =
      (case map_of (workers s) k of
         None \<Rightarrow> None
       | Some v \<Rightarrow> Some (if k \<in> (\<lambda>a. id_w (fst a)) ` set ?as
                         then v\<lparr>last_seen_at := now\<rparr> else v))" for k
    unfolding w touch_loop_map_of ids ..
  have absent: "(\<forall>r \<in> set rs. map_of reg (workerId r) = None) \<longrightarrow> touch_loop now rs reg = reg"
    by (simp add: touch_loop_absent)
  show ?thesis
    using d calls keys absent by (simp add: look touched_eq)
qed

theorem create_task_touches_called_witness:
  "CreateTaskIn_valid job1 \<and> get_workers_list (workers s_ab) \<noteq> []
   \<and> map_of (workers s_ab) ''a'' = Some w_a \<and> map_of (workers s_ab) ''b'' = Some w_b
   \<and> snd (snd (api_create_task net_500 parse_none 9 4 job1 s_ab)) =
       [(''http://a/execute'',
         [(''taskId'', PStr ''task-1''), (''name'', PStr ''job''), (''count'', PInt 1)])]
   \<and> workers (fst (snd (api_create_task net_500 parse_none 9 4 job1 s_ab))) =
       [(''b'', w_b), (''a'', w_a\<lparr>last_seen_at := 9\<rparr>)]
   \<and> touch_loop 9 [r_gone] (workers s_ab) = workers s_ab"
proof -
  have h2: "get_workers_list (workers s_ab) \<noteq> []"
    by (simp add: get_workers_list_s_ab)
  have a: "\<forall>r \<in> set [r_gone]. map_of (workers s_ab) (workerId r) = None"
    by (simp add: r_gone_def s_ab_def)
  from create_task_touches_called [OF job1_valid h2, of net_500 parse_none 9 4 "[r_gone]" "workers s_ab"] a
  have "touch_loop 9 [r_gone] (workers s_ab) = workers s_ab" by blast
  then show ?thesis
    using job1_valid h2 by (simp add: run_job1_500) (simp add: s_ab_def)
qed

subsection \<open>The created total\<close>

lemma py_int_plain:
  "created_plain v \<Longrightarrow>
   py_int parse (py_or v (PInt 0)) =
     Inr (case v of PInt i \<Rightarrow> i | PFloat (FFinite q) \<Rightarrow> trunc q | _ \<Rightarrow> 0)"
  by (induction v rule: created_plain.induct) (auto simp: py_or_def trunc_def)

lemma created_total_loop_plain:
  "\<forall>x \<in> set rs. \<forall>kv. result x = PDict kv \<longrightarrow> created_plain (dict_get kv ''created'') \<Longrightarrow>
   created_total_loop parse rs acc = Inr (acc + created_sum_all rs)"
proof (induction rs arbitrary: acc)
  case Nil
  then show ?case by (simp add: created_sum_all_def)
next
  case (Cons x xs)
  from Cons.prems
  have "\<forall>x \<in> set xs. \<forall>kv. result x = PDict kv \<longrightarrow> created_plain (dict_get kv ''created'')"
    by simp
  then have tl: "created_total_loop parse xs a = Inr (a + created_sum_all xs)" for a
    by (rule Cons.IH)
  show ?case
  proof (cases "result x")
    case (PDict kv)
    then have "created_plain (dict_get kv ''created'')" using Cons.prems by simp
    from py_int_plain [OF this, of parse] PDict tl show ?thesis
      by (simp add: created_sum_all_def)
  qed (simp_all add: tl created_sum_all_def)
qed

text \<open>
  A \<^verbatim>\<open>created\<close> member that is a non-empty list makes \<^verbatim>\<open>int\<close> raise
  \<^verbatim>\<open>TypeError\<close>: the handler fails after the calls and the refresh of the registry.
\<close>

lemma run_job1_list:
  "api_create_task net_list parse_none 9 4 job1 s_ab =
    (Inl TypeError,
     \<lparr>workers = [(''b'', w_b), (''a'', w_a\<lparr>last_seen_at := 9\<rparr>)], task_seq = 1\<rparr>,
     [(''http://a/execute'', [(''taskId'', PStr ''task-1''), (''name'', PStr ''job''), (''count'', PInt 1)])])"
  apply (simp add: api_create_task_def get_workers_list_s_ab Let_def job1_def strip_job
      CreateTaskIn_valid_def distribute_evenly_def)
  apply (simp add: s_ab_def str_int_1 net_list_def call_of_def payload_of_def dict_get_def
      call_worker_execute_def w_a_def w_b_def dict_set_def py_or_def)
  done

lemma call_worker_execute_result:
  "result (call_worker_execute out el w) = PDict kv \<Longrightarrow> \<exists>st. out = Responded st (Some (PDict kv))"
  by (auto simp: call_worker_execute_def Let_def split: outcome.splits option.splits)

lemma gather_result:
  "x \<in> set (gather net tid nm i as) \<Longrightarrow> result x = PDict kv \<Longrightarrow>
   \<exists>j c st. fst (net j c) = Responded st (Some (PDict kv))"
proof (induction as arbitrary: i)
  case Nil
  then show ?case by simp
next
  case (Cons a as)
  let ?r = "net i (call_of tid nm a)"
  from Cons.prems(1) consider
    "x = call_worker_execute (fst ?r) (snd ?r) (fst a)" | "x \<in> set (gather net tid nm (Suc i) as)"
    by (auto simp: Let_def)
  then show ?case
  proof cases
    case 1
    with Cons.prems(2) obtain st where "fst ?r = Responded st (Some (PDict kv))"
      using call_worker_execute_result by blast
    then show ?thesis by blast
  next
    case 2
    then show ?thesis using Cons.IH Cons.prems(2) by blast
  qed
qed

text \<open>
  Claim C2, as stated, fails. A worker that answers 500 with the JSON object
  \<^verbatim>\<open>{"created": 3, "error": "disk full"}\<close> gives a result with \<open>ok = False\<close>; the
  report counts its 3 in \<open>createdTotal\<close>, where the sum over the successful results
  is 0.
\<close>

theorem created_total_counts_failed_result:
  "fst (api_create_task net_500 parse_none 9 4 job1 s_ab) = Inr report_500
   \<and> createdTotal report_500 = 3
   \<and> spec_created_total (map fst (perWorker report_500)) = 0"
  by (simp add: run_job1_500) (simp add: report_500_def spec_created_total_def)

text \<open>
  Claim C2, amended. For a valid request and a non-empty registry, when every worker
  response that is a JSON object has a \<^verbatim>\<open>created\<close> member that is missing, null, an
  integer or a finite float, the handler returns a report, and its \<open>createdTotal\<close> is
  the sum over all per-worker results, successful or not, of what the payload reports
  as created: the integer, the float truncated towards zero, and 0 for a missing or null
  member and for a payload that is not an object.
\<close>

theorem created_total_all_results:
  assumes "CreateTaskIn_valid body"
    and "get_workers_list (workers s) \<noteq> []"
    and "\<forall>i c st kv. fst (net i c) = Responded st (Some (PDict kv)) \<longrightarrow>
           created_plain (dict_get kv ''created'')"
  shows "\<exists>rep s' calls.
           api_create_task net parse now total_elapsed_ms body s = (Inr rep, s', calls)
           \<and> createdTotal rep = created_sum_all (map fst (perWorker rep))"
proof -
  let ?ws = "get_workers_list (workers s)"
  from assms(2) obtain plan where d: "distribute_evenly (count body) ?ws = Inr plan"
    by (auto simp: distribute_evenly_def Let_def)
  let ?tid = "''task-'' @ str_int (task_seq s + 1)"
  let ?as = "filter (\<lambda>a. 0 < snd a) plan"
  let ?rs = "gather net ?tid (strip (name body)) 0 ?as"
  have "created_total_loop parse ?rs 0 = Inr (0 + created_sum_all ?rs)"
  proof (rule created_total_loop_plain, intro ballI allI impI)
    fix x kv
    assume "x \<in> set ?rs" and "result x = PDict kv"
    then obtain j c st where "fst (net j c) = Responded st (Some (PDict kv))"
      using gather_result by blast
    with assms(3) show "created_plain (dict_get kv ''created'')" by blast
  qed
  then show ?thesis
    using assms(1,2) d by (simp add: api_create_task_def Let_def comp_def)
qed

theorem created_total_all_results_witness:
  "CreateTaskIn_valid job1
   \<and> get_workers_list (workers s_ab) \<noteq> []
   \<and> fst (api_create_task net_500 parse_none 9 4 job1 s_ab) = Inr report_500
   \<and> createdTotal report_500 = created_sum_all (map fst (perWorker report_500))"
proof -
  have h2: "get_workers_list (workers s_ab) \<noteq> []"
    by (simp add: get_workers_list_s_ab)
  have h3: "\<forall>i c st kv. fst (net_500 i c) = Responded st (Some (PDict kv)) \<longrightarrow>
              created_plain (dict_get kv ''created'')"
    by (auto simp: net_500_def dict_get_def)
  from created_total_all_results [OF job1_valid h2 h3, of parse_none 9 4]
  show ?thesis
    using job1_valid h2 by (simp add: run_job1_500)
qed

subsection \<open>Registration\<close>

lemma dict_set_set: "set (dict_set k w reg) \<subseteq> insert (k, w) (set reg)"
  by (induction reg) (auto simp: dict_set_def)

lemma registry_ok_empty: "registry_ok []"
  by (simp add: registry_ok_def)

lemma registry_ok_dict_set:
  "registry_ok reg \<Longrightarrow> id_w w = k \<Longrightarrow> registry_ok (dict_set k w reg)"
  unfolding registry_ok_def using dict_set_set [of k w reg]
  by (auto simp: dict_set_distinct)

lemma distinct_map_sort_key: "distinct (map f xs) \<Longrightarrow> distinct (map f (sort_key g xs))"
  by (simp add: distinct_map)

lemma registry_ok_ids: "registry_ok reg \<Longrightarrow> distinct (map id_w (get_workers_list reg))"
proof -
  assume ok: "registry_ok reg"
  then have e: "map id_w (map snd reg) = map fst reg"
    by (simp add: registry_ok_def)
  have "distinct (map id_w (map snd reg))"
    by (subst e) (use ok in \<open>simp add: registry_ok_def\<close>)
  then show ?thesis
    unfolding get_workers_list_def by (rule distinct_map_sort_key)
qed

lemma registry_ok_touch_loop: "registry_ok reg \<Longrightarrow> registry_ok (touch_loop now rs reg)"
proof (induction rs arbitrary: reg)
  case Nil
  then show ?case by simp
next
  case (Cons r rs)
  show ?case
  proof (cases "map_of reg (workerId r)")
    case None
    with Cons show ?thesis by simp
  next
    case (Some w)
    then have "(workerId r, w) \<in> set reg" by (rule map_of_SomeD)
    with Cons.prems have "id_w w = workerId r" by (auto simp: registry_ok_def)
    then have "registry_ok (dict_set (workerId r) (w\<lparr>last_seen_at := now\<rparr>) reg)"
      using Cons.prems by (simp add: registry_ok_dict_set)
    with Some Cons.IH show ?thesis by (simp add: touched_eq)
  qed
qed

lemma registry_ok_load: "registry_ok reg \<Longrightarrow> registry_ok (load_workers_env_once now es reg)"
  by (induction now es reg rule: load_workers_env_once.induct) (simp_all add: registry_ok_dict_set)

lemma register_result:
  assumes "api_register_worker t now body s = (Inr w, s')"
  shows "id_w w = register_id t body
         \<and> label w = register_label body
         \<and> url w = normalize_url (url_in body)
         \<and> registered_at w =
             (case map_of (workers s) (register_id t body) of
                Some e \<Rightarrow> registered_at e | None \<Rightarrow> now)
         \<and> last_seen_at w = now
         \<and> source w = ''register''
         \<and> workers s' = dict_set (register_id t body) w (workers s)
         \<and> task_seq s' = task_seq s"
  using assms by (auto simp: api_register_worker_def Let_def split: if_splits)

lemma normalize_url_new: "normalize_url '' https://new/ '' = ''https://new''"
  by (simp add: normalize_url_def strip_def isspace_def normalize_loop.simps endswith_def)

lemma normalize_url_x: "normalize_url ''http://x'' = ''http://x''"
  by (simp add: normalize_url_def strip_def isspace_def normalize_loop.simps endswith_def)

lemma normalize_url_y: "normalize_url ''http://y'' = ''http://y''"
  by (simp add: normalize_url_def strip_def isspace_def normalize_loop.simps endswith_def)

lemma registry_ok_s_a: "registry_ok (workers s_a)"
  by (simp add: registry_ok_def s_a_def w_a_def)

lemma strip_worker: "strip ''worker'' = ''worker''"
  by (simp add: strip_def isspace_def)

lemma strip_empty: "strip [] = []"
  by (simp add: strip_def)

lemma str_int_ms: "str_int 1700000000000 = ''1700000000000''"
  by (simp add: str_int_def str_nat.simps digit_def)

lemma bit_len_ms: "bit_len 1700000000000 = 41"
  by (simp add: bit_len.simps)

lemma round_double_ms:
  assumes "\<lfloor>q\<rfloor> = 1700000000000" and "round_half_even (q * 4096) = m"
  shows "round_double q = of_int m / 4096"
proof -
  from assms(1) have q: "1 \<le> q" "q \<noteq> 0" "\<bar>q\<bar> = q" by (simp_all add: floor_eq_iff)
  have e: "floor_log2 q = 40"
    using q(1) assms(1) by (simp add: floor_log2_def bit_len_ms)
  have u: "pow2 (max (floor_log2 \<bar>q\<bar> - 52) (- 1074)) = 1 / 4096"
    by (simp add: q(3) e pow2_def)
  show ?thesis
    using q(2) assms(2) by (simp add: round_double_def u)
qed

lemma trunc_t_x: "trunc (fmul t_x 1000) = 1700000000000"
proof -
  let ?q = "1700000000 * 1000 :: rat"
  have f1: "\<lfloor>?q\<rfloor> = 1700000000000" by (simp add: floor_eq_iff)
  have f2: "\<lfloor>?q * 4096\<rfloor> = 6963200000000000" by (simp add: floor_eq_iff)
  have m: "round_half_even (?q * 4096) = 6963200000000000"
    unfolding round_half_even_def Let_def f2 by simp
  have "fmul t_x 1000 = of_int 6963200000000000 / 4096"
    unfolding fmul_def t_x_def by (rule round_double_ms [OF f1 m])
  then show ?thesis by (simp add: trunc_def floor_eq_iff)
qed

lemma trunc_t_y: "trunc (fmul t_y 1000) = 1700000000000"
proof -
  let ?q = "(1700000000 + 1 / 4096) * 1000 :: rat"
  have f1: "\<lfloor>?q\<rfloor> = 1700000000000" by (simp add: floor_eq_iff)
  have f2: "\<lfloor>?q * 4096\<rfloor> = 6963200000001000" by (simp add: floor_eq_iff)
  have m: "round_half_even (?q * 4096) = 6963200000001000"
    unfolding round_half_even_def Let_def f2 by simp
  have "fmul t_y 1000 = of_int 6963200000001000 / 4096"
    unfolding fmul_def t_y_def by (rule round_double_ms [OF f1 m])
  then show ?thesis by (simp add: trunc_def floor_eq_iff)
qed

text \<open>
  The double nearest to 1700000000.001 lies just below it. Its product with 1000
  rounds up to 1700000000001, which the exact product does not reach.
\<close>

lemma trunc_rounded_product:
  "trunc (fmul (3565158400002097 / 2097152) 1000) = 1700000000001
   \<and> trunc ((3565158400002097 / 2097152) * 1000) = 1700000000000"
proof -
  let ?q = "(3565158400002097 / 2097152) * 1000 :: rat"
  have f1: "\<lfloor>?q\<rfloor> = 1700000000000" by (simp add: floor_eq_iff)
  have f2: "\<lfloor>?q * 4096\<rfloor> = 6963200000004095" by (simp add: floor_eq_iff)
  have m: "round_half_even (?q * 4096) = 6963200000004096"
    unfolding round_half_even_def Let_def f2 by simp
  have "fmul (3565158400002097 / 2097152) 1000 = of_int 6963200000004096 / 4096"
    unfolding fmul_def by (rule round_double_ms [OF f1 m])
  then have "trunc (fmul (3565158400002097 / 2097152) 1000) = 1700000000001"
    by (simp add: trunc_def)
  moreover have "trunc ?q = 1700000000000"
    unfolding trunc_def f1 by simp
  ultimately show ?thesis by blast
qed

lemma register_x: "api_register_worker t_x t_x body_x s_none = (Inr w_x, \<lparr>workers = [(''reg-1700000000000'', w_x)], task_seq = 0\<rparr>)"
  by (simp add: api_register_worker_def body_x_def normalize_url_x startswith_def
      register_id_def register_label_def strip_worker strip_empty trunc_t_x str_int_ms
      s_none_def dict_set_def w_x_def Let_def)

lemma register_y: "api_register_worker t_y t_y body_y \<lparr>workers = [(''reg-1700000000000'', w_x)], task_seq = 0\<rparr>
   = (Inr w_y, \<lparr>workers = [(''reg-1700000000000'', w_y)], task_seq = 0\<rparr>)"
  by (simp add: api_register_worker_def body_y_def normalize_url_y startswith_def
      register_id_def register_label_def strip_worker strip_empty trunc_t_y str_int_ms
      dict_set_def w_y_def) (simp add: w_x_def Let_def)

text \<open>
  Claim C4. A registration whose normalized url is accepted stores a worker under its
  id, with the new url, the new label and \<open>last_seen_at = now\<close>. Its \<open>registered_at\<close> is
  that of the entry the id had, when it had one, and \<open>now\<close> when the id is fresh. Every
  other entry is untouched, and the registry still holds every id once, each worker
  under its own id, so the ids of the listed workers are distinct.
\<close>

theorem register_upsert:
  assumes "normalize_url (url_in body) \<noteq> []"
    and "startswith (normalize_url (url_in body)) ''http://''
         \<or> startswith (normalize_url (url_in body)) ''https://''"
    and "registry_ok (workers s)"
  shows "\<exists>w s'. api_register_worker t now body s = (Inr w, s')
           \<and> id_w w = register_id t body
           \<and> map_of (workers s') (id_w w) = Some w
           \<and> url w = normalize_url (url_in body)
           \<and> label w = register_label body
           \<and> last_seen_at w = now
           \<and> registered_at w =
               (case map_of (workers s) (id_w w) of Some e \<Rightarrow> registered_at e | None \<Rightarrow> now)
           \<and> (\<forall>k. k \<noteq> id_w w \<longrightarrow> map_of (workers s') k = map_of (workers s) k)
           \<and> registry_ok (workers s')
           \<and> distinct (map id_w (get_workers_list (workers s')))
           \<and> task_seq s' = task_seq s"
proof -
  let ?k = "register_id t body"
  let ?w = "\<lparr>id_w = ?k, label = register_label body, url = normalize_url (url_in body),
             registered_at = (case map_of (workers s) ?k of
                                Some e \<Rightarrow> registered_at e | None \<Rightarrow> now),
             last_seen_at = now, source = ''register''\<rparr>"
  let ?s = "s\<lparr>workers := dict_set ?k ?w (workers s)\<rparr>"
  have run: "api_register_worker t now body s = (Inr ?w, ?s)"
    using assms(1,2) by (auto simp: api_register_worker_def Let_def)
  have ok: "registry_ok (workers ?s)"
    using assms(3) by (simp add: registry_ok_dict_set)
  then have ids: "distinct (map id_w (get_workers_list (workers ?s)))"
    by (rule registry_ok_ids)
  show ?thesis
    using run ok ids by (simp add: dict_set_map_of)
qed

theorem register_upsert_witness:
  "normalize_url (url_in body_re) = ''https://new''
   \<and> registry_ok (workers s_a)
   \<and> api_register_worker 5 5 body_re s_a = (Inr w_re, \<lparr>workers = [(''a'', w_re)], task_seq = 0\<rparr>)"
proof -
  have u: "normalize_url (url_in body_re) = ''https://new''"
    by (simp add: body_re_def normalize_url_new)
  have h1: "normalize_url (url_in body_re) \<noteq> []" by (simp add: u)
  have h2: "startswith (normalize_url (url_in body_re)) ''http://''
            \<or> startswith (normalize_url (url_in body_re)) ''https://''"
    by (simp add: u startswith_def)
  have run: "api_register_worker 5 5 body_re s_a = (Inr w_re, \<lparr>workers = [(''a'', w_re)], task_seq = 0\<rparr>)"
    by (simp add: api_register_worker_def u startswith_def register_id_def register_label_def)
       (simp add: body_re_def strip_def isspace_def s_a_def dict_set_def w_re_def w_a_def Let_def)
  from register_upsert [OF h1 h2 registry_ok_s_a, of 5 5] u run show ?thesis
    by (simp add: registry_ok_s_a)
qed

text \<open>
  Claim C9, as stated, fails. Two registrations without an id, the second made less
  than a millisecond after the first, both get the id \<^verbatim>\<open>reg-1700000000000\<close>; the
  second takes the place of the first in the registry.
\<close>

theorem generated_id_collision:
  "api_register_worker t_x t_x body_x s_none =
     (Inr w_x, \<lparr>workers = [(''reg-1700000000000'', w_x)], task_seq = 0\<rparr>)
   \<and> api_register_worker t_y t_y body_y \<lparr>workers = [(''reg-1700000000000'', w_x)], task_seq = 0\<rparr> =
     (Inr w_y, \<lparr>workers = [(''reg-1700000000000'', w_y)], task_seq = 0\<rparr>)
   \<and> id_in body_x = None \<and> id_in body_y = None
   \<and> id_w w_x = id_w w_y
   \<and> url w_x \<noteq> url w_y"
  by (simp add: register_x register_y) (simp add: w_x_def w_y_def body_x_def body_y_def)

lemma register_id_generated:
  "strip (case id_in body of None \<Rightarrow> [] | Some i \<Rightarrow> i) = [] \<Longrightarrow>
   register_id t body = ''reg-'' @ str_int (trunc (fmul t 1000))"
  by (simp add: register_id_def)

text \<open>
  Claim C9, amended. A registration without an id gets the id \<^verbatim>\<open>reg-\<close> followed by
  \<^verbatim>\<open>int(now * 1000)\<close>, the product taken on doubles. Two such registrations, one after
  the other, get the same id exactly when that number of milliseconds is the same for
  both. Then the later one replaces the earlier one's entry and keeps its
  \<open>registered_at\<close>; otherwise both entries are in the registry.
\<close>

theorem generated_ids_same_millisecond:
  assumes "strip (case id_in b1 of None \<Rightarrow> [] | Some i \<Rightarrow> i) = []"
    and "strip (case id_in b2 of None \<Rightarrow> [] | Some i \<Rightarrow> i) = []"
    and "api_register_worker t1 n1 b1 s = (Inr w1, s1)"
    and "api_register_worker t2 n2 b2 s1 = (Inr w2, s2)"
  shows "id_w w1 = ''reg-'' @ str_int (trunc (fmul t1 1000))
         \<and> id_w w2 = ''reg-'' @ str_int (trunc (fmul t2 1000))
         \<and> (id_w w1 = id_w w2 \<longleftrightarrow> trunc (fmul t1 1000) = trunc (fmul t2 1000))
         \<and> (trunc (fmul t1 1000) = trunc (fmul t2 1000) \<longrightarrow>
              map_of (workers s2) (id_w w1) = Some w2 \<and> registered_at w2 = registered_at w1)
         \<and> (trunc (fmul t1 1000) \<noteq> trunc (fmul t2 1000) \<longrightarrow>
              map_of (workers s2) (id_w w1) = Some w1 \<and> map_of (workers s2) (id_w w2) = Some w2)"
proof -
  note r1 = register_result [OF assms(3)]
  note r2 = register_result [OF assms(4)]
  have k1: "register_id t1 b1 = id_w w1" using r1 by simp
  have k2: "register_id t2 b2 = id_w w2" using r2 by simp
  have i1: "id_w w1 = ''reg-'' @ str_int (trunc (fmul t1 1000))"
    using k1 register_id_generated [OF assms(1), of t1] by simp
  have i2: "id_w w2 = ''reg-'' @ str_int (trunc (fmul t2 1000))"
    using k2 register_id_generated [OF assms(2), of t2] by simp
  have "workers s1 = dict_set (id_w w1) w1 (workers s)"
    using r1 k1 by simp
  then have m1: "map_of (workers s1) (id_w w1) = Some w1"
    by (simp add: dict_set_map_of)
  have "workers s2 = dict_set (id_w w2) w2 (workers s1)"
    using r2 k2 by simp
  then have m2: "map_of (workers s2) = (map_of (workers s1))(id_w w2 \<mapsto> w2)"
    by (simp add: dict_set_map_of)
  have eq: "id_w w1 = id_w w2 \<longleftrightarrow> trunc (fmul t1 1000) = trunc (fmul t2 1000)"
    using i1 i2 str_int_inj by auto
  have ra: "registered_at w2 =
      (case map_of (workers s1) (id_w w2) of Some e \<Rightarrow> registered_at e | None \<Rightarrow> n2)"
    using r2 k2 by simp
  show ?thesis
    using i1 i2 eq m1 m2 ra by auto
qed

theorem generated_ids_same_millisecond_witness:
  "strip (case id_in body_x of None \<Rightarrow> [] | Some i \<Rightarrow> i) = []
   \<and> strip (case id_in body_y of None \<Rightarrow> [] | Some i \<Rightarrow> i) = []
   \<and> api_register_worker t_x t_x body_x s_none = (Inr w_x, s_x)
   \<and> api_register_worker t_y t_y body_y s_x = (Inr w_y, s_y)
   \<and> trunc (fmul t_x 1000) = trunc (fmul t_y 1000)
   \<and> map_of (workers s_y) (id_w w_x) = Some w_y
   \<and> registered_at w_y = registered_at w_x"
proof -
  have h1: "strip (case id_in body_x of None \<Rightarrow> [] | Some i \<Rightarrow> i) = []"
    by (simp add: body_x_def strip_empty)
  have h2: "strip (case id_in body_y of None \<Rightarrow> [] | Some i \<Rightarrow> i) = []"
    by (simp add: body_y_def strip_empty)
  have r1: "api_register_worker t_x t_x body_x s_none = (Inr w_x, s_x)"
    by (simp add: register_x s_x_def)
  have r2: "api_register_worker t_y t_y body_y s_x = (Inr w_y, s_y)"
    by (simp add: register_y s_x_def s_y_def)
  have e: "trunc (fmul t_x 1000) = trunc (fmul t_y 1000)"
    by (simp add: trunc_t_x trunc_t_y)
  from generated_ids_same_millisecond [OF h1 h2 r1 r2] e
  have "map_of (workers s_y) (id_w w_x) = Some w_y \<and> registered_at w_y = registered_at w_x"
    by blast
  with h1 h2 r1 r2 e show ?thesis by blast
qed

subsection \<open>The worker's execute endpoint\<close>

lemma strip_subset: "set (strip s) \<subseteq> set s"
proof -
  have "set (dropWhile isspace (rev (dropWhile isspace s))) \<subseteq> set (rev (dropWhile isspace s))"
    by (auto dest: set_dropWhileD)
  also have "\<dots> \<subseteq> set s" by (auto dest: set_dropWhileD)
  finally show ?thesis by (simp add: strip_def)
qed

lemma replace_all_subset:
  "set (foldl (\<lambda>s ch. replace_char ch CHR ''_'' s) s chs) \<subseteq> insert CHR ''_'' (set s)"
proof (induction chs arbitrary: s)
  case Nil
  then show ?case by auto
next
  case (Cons ch chs)
  have "set (replace_char ch CHR ''_'' s) \<subseteq> insert CHR ''_'' (set s)"
    by (auto simp: replace_char_def)
  with Cons.IH [of "replace_char ch CHR ''_'' s"] show ?case by auto
qed

lemma safe_base_name_no_nul: "CHR 0x00 \<notin> set nm \<Longrightarrow> CHR 0x00 \<notin> set (safe_base_name nm)"
proof -
  assume n: "CHR 0x00 \<notin> set nm"
  let ?s = "foldl (\<lambda>s ch. replace_char ch CHR ''_'' s) (strip nm) bad"
  have "set ?s \<subseteq> insert CHR ''_'' (set (strip nm))" by (rule replace_all_subset)
  with strip_subset [of nm] n have "CHR 0x00 \<notin> set ?s" by auto
  then have "CHR 0x00 \<notin> set (take 80 ?s)" by (auto dest: in_set_takeD)
  then show ?thesis by (simp add: safe_base_name_def Let_def)
qed

lemma digit_no_nul: "d < 10 \<Longrightarrow> digit d \<noteq> CHR 0x00"
  using below_ten [of d] by (auto simp: digit_def)

lemma str_nat_no_nul: "CHR 0x00 \<notin> set (str_nat n)"
proof (induction n rule: str_nat.induct)
  case (1 n)
  show ?case
  proof (cases "n < 10")
    case True
    then show ?thesis
      using digit_no_nul [of n] by (subst str_nat.simps) auto
  next
    case False
    with 1 have "CHR 0x00 \<notin> set (str_nat (n div 10))" by simp
    moreover have "digit (n mod 10) \<noteq> CHR 0x00" by (simp add: digit_no_nul)
    ultimately show ?thesis
      using False by (subst str_nat.simps) auto
  qed
qed

lemma str_int_no_nul: "CHR 0x00 \<notin> set (str_int i)"
  by (simp add: str_int_def str_nat_no_nul)

lemma file_path_no_nul:
  "CHR 0x00 \<notin> set (home_folder env) \<Longrightarrow> CHR 0x00 \<notin> set base \<Longrightarrow>
   CHR 0x00 \<notin> set (file_path env base i)"
  by (simp add: file_path_def file_name_def str_int_no_nul)

lemma file_name_inj: "file_name base i = file_name base j \<Longrightarrow> i = j"
  by (simp add: file_name_def str_int_inj)

lemma file_path_inj: "file_path env base i = file_path env base j \<Longrightarrow> i = j"
  by (simp add: file_path_def file_name_inj)

text \<open>What the loop leaves when every write succeeds.\<close>

lemma execute_loop_ok:
  assumes "\<forall>i \<in> set is. CHR 0x00 \<notin> set (file_path env base i) \<and> can_write env (file_path env base i)"
    and "length sf \<le> 5"
  shows "execute_loop env tid nm base is (fs, n, sf) =
           (Inr (n + int (length is), take 5 (sf @ map (file_name base) is)),
            fold (\<lambda>i f. f(file_path env base i \<mapsto> file_text env tid nm i)) is fs)"
  using assms
proof (induction "is" arbitrary: fs n sf)
  case Nil
  then show ?case by simp
next
  case (Cons i "is")
  from Cons.prems(1)
  have w: "write_text env (file_path env base i) (file_text env tid nm i) fs =
           Inr (fs(file_path env base i \<mapsto> file_text env tid nm i))"
    by (simp add: write_text_def)
  from Cons.prems(1)
  have rest: "\<forall>i \<in> set is. CHR 0x00 \<notin> set (file_path env base i) \<and> can_write env (file_path env base i)"
    by simp
  show ?case
  proof (cases "length sf < 5")
    case True
    then have "length (sf @ [file_name base i]) \<le> 5" by simp
    from Cons.IH [OF rest this] True w show ?thesis by simp
  next
    case False
    with Cons.prems(2) have "length sf = 5" by simp
    with Cons.IH [OF rest Cons.prems(2)] False w show ?thesis by simp
  qed
qed

lemma fold_files_frame:
  "k \<notin> set ks \<Longrightarrow>
   fold (\<lambda>i f. f(file_path env base i \<mapsto> file_text env tid nm i)) ks g (file_path env base k)
     = g (file_path env base k)"
proof (induction ks arbitrary: g)
  case Nil
  then show ?case by simp
next
  case (Cons j js)
  then have "k \<noteq> j" and "k \<notin> set js" by simp_all
  then have "file_path env base j \<noteq> file_path env base k"
    by (auto dest: file_path_inj)
  with Cons.IH [OF \<open>k \<notin> set js\<close>, of "g(file_path env base j \<mapsto> file_text env tid nm j)"]
  show ?case by (simp del: fun_upd_apply add: fun_upd_other)
qed

lemma fold_files:
  "distinct is \<Longrightarrow> i \<in> set is \<Longrightarrow>
   fold (\<lambda>i f. f(file_path env base i \<mapsto> file_text env tid nm i)) is fs (file_path env base i)
     = Some (file_text env tid nm i)"
proof (induction "is" arbitrary: fs)
  case Nil
  then show ?case by simp
next
  case (Cons j js)
  show ?case
  proof (cases "i = j")
    case True
    with Cons.prems have "i \<notin> set js" by simp
    from fold_files_frame [OF this, of env base tid nm
        "fs(file_path env base j \<mapsto> file_text env tid nm j)"] True
    show ?thesis by (simp del: fun_upd_apply add: fun_upd_same)
  next
    case False
    with Cons.prems have "distinct js" "i \<in> set js" by simp_all
    from Cons.IH [OF this, of "fs(file_path env base j \<mapsto> file_text env tid nm j)"]
    show ?thesis by (simp del: fun_upd_apply)
  qed
qed

lemma safe_base_name_job: "safe_base_name ''job'' = ''job''"
  by (simp add: safe_base_name_def strip_def isspace_def bad_def replace_char_def)

lemma str_int_digits:
  "str_int 1 = ''1''" "str_int 2 = ''2''" "str_int 3 = ''3''"
  "str_int 4 = ''4''" "str_int 5 = ''5''" "str_int 6 = ''6''"
  by (simp_all add: str_int_def str_nat.simps digit_def)

lemma strip_nul_name: "strip [CHR ''a'', CHR 0x00, CHR ''b''] = [CHR ''a'', CHR 0x00, CHR ''b'']"
  by (simp add: strip_def isspace_def)

lemma safe_base_name_nul:
  "safe_base_name [CHR ''a'', CHR 0x00, CHR ''b''] = [CHR ''a'', CHR 0x00, CHR ''b'']"
  by (simp add: safe_base_name_def strip_nul_name bad_def replace_char_def)

lemma upto_1: "[1..1::int] = [1]"
  by (simp add: upto.simps)

text \<open>
  Claim C10, as stated, fails. A name made of \<open>a\<close>, a NUL character and \<open>b\<close> is non-empty
  after stripping and the count is 1, and opening the file raises \<^verbatim>\<open>ValueError\<close>: the worker answers 500 and
  has written nothing. Likewise, when the system refuses the first file, the request
  for six files ends in \<^verbatim>\<open>OSError\<close>.
\<close>

theorem execute_fails_on_refused_write:
  "strip (name_e job_nul) \<noteq> [] \<and> 0 \<le> count_e job_nul
   \<and> execute env_mac 7 job_nul no_files = (Inl ValueError, no_files)
   \<and> strip (name_e job_e) \<noteq> [] \<and> 0 \<le> count_e job_e
   \<and> fst (execute env_full 7 job_e no_files) = Inl OSError"
proof -
  have n: "strip (name_e job_nul) = [CHR ''a'', CHR 0x00, CHR ''b'']"
    by (simp add: job_nul_def strip_nul_name)
  have c: "count_e job_nul = 1" by (simp add: job_nul_def)
  have v: "ExecuteIn_valid job_nul" by (simp add: ExecuteIn_valid_def job_nul_def)
  have p: "CHR 0x00 \<in> set (file_path env_mac [CHR ''a'', CHR 0x00, CHR ''b''] 1)"
    by (simp add: file_path_def file_name_def)
  have r1: "execute env_mac 7 job_nul no_files = (Inl ValueError, no_files)"
    using v p
    by (simp add: execute_def n c execute0_def ensure_folder_def safe_base_name_nul upto_1
        write_text_def env_mac_def)
  have n2: "strip (name_e job_e) = ''job''" by (simp add: job_e_def strip_job)
  have c2: "count_e job_e = 6" by (simp add: job_e_def)
  have v2: "ExecuteIn_valid job_e" by (simp add: ExecuteIn_valid_def job_e_def)
  have u: "[1..6::int] = 1 # [2..6]" by (simp add: upto.simps)
  have p2: "CHR 0x00 \<notin> set (file_path env_full ''job'' 1)"
    by (simp add: file_path_def file_name_def str_int_digits env_full_def)
  have r2: "execute env_full 7 job_e no_files = (Inl OSError, no_files)"
    using v2 p2
    by (simp add: execute_def n2 c2 execute0_def ensure_folder_def safe_base_name_job u
        write_text_def) (simp add: env_full_def no_path_def)
  show ?thesis using n c r1 n2 c2 r2 by simp
qed

text \<open>
  Claim C10, amended. For an execute request whose name is non-empty after stripping
  and holds no NUL character, and whose count is at least 0, when the worker can make
  its folder and the system accepts the write of each of the files, the worker answers
  with \<open>ok = True\<close> and \<open>created\<close> equal to the count. It has written one file for every
  index from 1 to the count, each under its own name, and \<open>sampleFiles\<close> lists the names
  of the first five of them (all of them when the count is below five).
\<close>

theorem execute_creates_count:
  assumes "strip (name_e body) \<noteq> []"
    and "0 \<le> count_e body"
    and "CHR 0x00 \<notin> set (name_e body)"
    and "CHR 0x00 \<notin> set (home_folder env)"
    and "can_mkdir env"
    and "\<forall>i. 1 \<le> i \<and> i \<le> count_e body \<longrightarrow>
           can_write env (file_path env (safe_base_name (strip (name_e body))) i)"
  shows "\<exists>out fs'. execute env elapsed_ms body fs = (Inr out, fs')
           \<and> ok_e out
           \<and> created out = count_e body
           \<and> sampleFiles out =
               take 5 (map (file_name (safe_base_name (strip (name_e body)))) [1..count_e body])
           \<and> length (sampleFiles out) = min 5 (nat (count_e body))
           \<and> (\<forall>i. 1 \<le> i \<and> i \<le> count_e body \<longrightarrow>
                 fs' (file_path env (safe_base_name (strip (name_e body))) i)
                   = Some (file_text env (case taskId_e body of None \<Rightarrow> [] | Some t \<Rightarrow> t)
                             (strip (name_e body)) i))"
proof -
  let ?tid = "case taskId_e body of None \<Rightarrow> [] | Some t \<Rightarrow> t"
  let ?nm = "strip (name_e body)"
  let ?base = "safe_base_name ?nm"
  let ?fs = "fold (\<lambda>i f. f(file_path env ?base i \<mapsto> file_text env ?tid ?nm i)) [1..count_e body] fs"
  let ?sf = "take 5 (map (file_name ?base) [1..count_e body])"
  from assms(1) have "name_e body \<noteq> []" by (auto simp: strip_def)
  then have v: "ExecuteIn_valid body"
    using assms(2) by (cases "name_e body") (simp_all add: ExecuteIn_valid_def)
  from assms(3) strip_subset [of "name_e body"] have "CHR 0x00 \<notin> set ?nm" by auto
  then have b: "CHR 0x00 \<notin> set ?base" by (rule safe_base_name_no_nul)
  have w: "\<forall>i \<in> set [1..count_e body].
      CHR 0x00 \<notin> set (file_path env ?base i) \<and> can_write env (file_path env ?base i)"
    using assms(6) file_path_no_nul [OF assms(4) b] by simp
  have loop: "execute_loop env ?tid ?nm ?base [1..count_e body] (fs, 0, []) =
      (Inr (0 + int (length [1..count_e body]), take 5 ([] @ map (file_name ?base) [1..count_e body])), ?fs)"
    by (rule execute_loop_ok [OF w]) simp
  have run: "execute env elapsed_ms body fs =
      (Inr \<lparr>ok_e = True, worker_e = LABEL env, taskId_o = ?tid, created = count_e body,
            folder = home_folder env, sampleFiles = ?sf, elapsedMs_e = elapsed_ms\<rparr>, ?fs)"
    using v assms(1,2,5) by (simp add: execute_def execute0_def ensure_folder_def Let_def loop)
  have files: "\<forall>i. 1 \<le> i \<and> i \<le> count_e body \<longrightarrow>
      ?fs (file_path env ?base i) = Some (file_text env ?tid ?nm i)"
  proof (intro allI impI)
    fix i
    assume "1 \<le> i \<and> i \<le> count_e body"
    then have "i \<in> set [1..count_e body]" by simp
    moreover have "distinct [1..count_e body]" by simp
    ultimately show "?fs (file_path env ?base i) = Some (file_text env ?tid ?nm i)"
      by (rule fold_files [rotated])
  qed
  have len: "length ?sf = min 5 (nat (count_e body))"
    by (simp add: min.commute)
  show ?thesis
    unfolding run using files len by simp
qed

theorem execute_creates_count_witness:
  "strip (name_e job_e) \<noteq> [] \<and> 0 \<le> count_e job_e
   \<and> CHR 0x00 \<notin> set (name_e job_e) \<and> CHR 0x00 \<notin> set (home_folder env_mac)
   \<and> can_mkdir env_mac
   \<and> fst (execute env_mac 7 job_e no_files) =
       Inr \<lparr>ok_e = True, worker_e = ''mac-worker'', taskId_o = ''task-1'', created = 6,
            folder = ''/Users/u/Desktop/test'',
            sampleFiles = [''job-1.txt'', ''job-2.txt'', ''job-3.txt'', ''job-4.txt'', ''job-5.txt''],
            elapsedMs_e = 7\<rparr>"
proof -
  have n: "strip (name_e job_e) = ''job''"
    by (simp add: job_e_def strip_job)
  have h1: "strip (name_e job_e) \<noteq> []" by (simp add: n)
  have h2: "0 \<le> count_e job_e" by (simp add: job_e_def)
  have h3: "CHR 0x00 \<notin> set (name_e job_e)" by (simp add: job_e_def)
  have h4: "CHR 0x00 \<notin> set (home_folder env_mac)" by (simp add: env_mac_def)
  have h5: "can_mkdir env_mac" by (simp add: env_mac_def)
  have h6: "\<forall>i. 1 \<le> i \<and> i \<le> count_e job_e \<longrightarrow>
              can_write env_mac (file_path env_mac (safe_base_name (strip (name_e job_e))) i)"
    by (simp add: env_mac_def any_path_def)
  have up: "[1..6::int] = [1, 2, 3, 4, 5, 6]" by (simp add: upto.simps)
  from execute_creates_count [OF h1 h2 h3 h4 h5 h6, of 7 no_files]
  obtain out fs' where r: "execute env_mac 7 job_e no_files = (Inr out, fs')"
    and c: "created out = count_e job_e"
    and sf: "sampleFiles out =
      take 5 (map (file_name (safe_base_name (strip (name_e job_e)))) [1..count_e job_e])"
    by blast
  have v: "ExecuteIn_valid job_e" by (simp add: ExecuteIn_valid_def job_e_def)
  have c6: "created out = 6" using c by (simp add: job_e_def)
  have sf5: "sampleFiles out = [''job-1.txt'', ''job-2.txt'', ''job-3.txt'', ''job-4.txt'', ''job-5.txt'']"
    using sf unfolding n safe_base_name_job
    by (simp add: job_e_def up file_name_def str_int_digits)
  have rest: "ok_e out = True \<and> worker_e out = ''mac-worker'' \<and> taskId_o out = ''task-1''
      \<and> folder out = ''/Users/u/Desktop/test'' \<and> elapsedMs_e out = 7"
    using r v
    by (auto simp: execute_def n execute0_def ensure_folder_def Let_def job_e_def env_mac_def
        split: prod.splits sum.splits if_splits)
  from c6 sf5 rest have "out = \<lparr>ok_e = True, worker_e = ''mac-worker'', taskId_o = ''task-1'',
      created = 6, folder = ''/Users/u/Desktop/test'',
      sampleFiles = [''job-1.txt'', ''job-2.txt'', ''job-3.txt'', ''job-4.txt'', ''job-5.txt''],
      elapsedMs_e = 7\<rparr>"
    by (cases out) simp
  with r h1 h2 h3 h4 h5 show ?thesis by simp
qed

end
